theory Spec2Isabelle
  imports Main
begin

section \<open>Connectivity state machine (lib/device-manager.js)\<close>

text \<open>
  Constants of \<^verbatim>\<open>lib/constants.js\<close> (milliseconds, and the attempt ceiling).
\<close>

definition RECONNECT_BASE_DELAY :: nat where
  "RECONNECT_BASE_DELAY = 5000"

definition RECONNECT_MAX_DELAY :: nat where
  "RECONNECT_MAX_DELAY = 300000"

definition MAX_RECONNECT_ATTEMPTS :: nat where
  "MAX_RECONNECT_ATTEMPTS = 10"

text \<open>
  The payload of a \<^verbatim>\<open>playing\<close> update: twelve fields, each a value of the transport
  (type \<open>'v\<close>), in the order the backends build them.
\<close>

record 'v playing_data =
  pd_title :: 'v
  pd_artist :: 'v
  pd_album :: 'v
  pd_genre :: 'v
  pd_mediaType :: 'v
  pd_deviceState :: 'v
  pd_app :: 'v
  pd_appId :: 'v
  pd_position :: 'v
  pd_duration :: 'v
  pd_shuffle :: 'v
  pd_repeat :: 'v

text \<open>
  The push-update callback receives \<^verbatim>\<open>{type, data}\<close> objects; the four types the
  backends emit are the constructors. A \<^verbatim>\<open>connection\<close> event carries the
  \<^verbatim>\<open>connected\<close> flag and the reason.
\<close>

datatype 'v push_event =
    EvPlaying "'v playing_data"
  | EvPower bool
  | EvVolume 'v
  | EvConnection bool 'v

text \<open>Values written to the state tree: a boolean, a string literal of the code, or a
  value passed through from the transport or the device configuration.\<close>

datatype 'v sval = VBool bool | VStr string | VRaw 'v

datatype dm_method = M_connect | M_disconnect | M_scheduleReconnect

text \<open>
  Log lines of the device manager, one constructor per call site; the level is the one the
  call site uses. The device name every message repeats is left out. \<open>L_reconnecting\<close>
  carries the delay in milliseconds (the message prints it in seconds) and the attempt number.
\<close>

datatype 'v dm_log =
    L_connecting
  | L_push_active
  | L_push_failed string
  | L_conn_lost 'v
  | L_max_reconnect
  | L_reconnecting nat nat
  | L_reconnect_failed string
  | L_poll_failed string
  | L_devinfo_failed string

text \<open>
  Everything a device manager does to the outside, in the order it does it: a call of
  \<^verbatim>\<open>adapter.setStateAsync(deviceId + '.' + path, value, true)\<close>, a log line, the stop of
  the push handle, the clearing of a timer; and, as a ghost entry, the entry into one of
  the three methods the connectivity claims speak about.
\<close>

datatype 'v dm_effect =
    SetState string "'v sval"
  | Log "'v dm_log"
  | StopPush
  | ClearPollTimer
  | ClearReconnectTimer
  | ClearArtworkTimer
  | Call dm_method

text \<open>
  The fields of \<^verbatim>\<open>DeviceManager\<close>. A timer field holds the delay or interval (ms) of
  the pending timer, \<open>None\<close> for \<^verbatim>\<open>null\<close>; \<open>pushHandle\<close> says whether the field holds a
  handle.
\<close>

record 'v dm =
  pushHandle :: bool
  pollTimer :: "nat option"
  reconnectTimer :: "nat option"
  artworkTimer :: "nat option"
  connected :: bool
  reconnectAttempts :: nat
  trace :: "'v dm_effect list"

text \<open>
  What the collaborators answer during one handler run. \<open>set_err path\<close> is the message of
  the error \<^verbatim>\<open>setStateAsync\<close> rejects with for that path (\<open>None\<close>: it resolves);
  \<open>push_err\<close> the error \<^verbatim>\<open>backend.startPushUpdates\<close> throws; \<open>get_playing\<close> and
  \<open>get_power\<close> the outcome of the two backend queries of a poll tick (\<open>Inl\<close> the error
  message); \<open>cfg\<close> the truthy fields of the device configuration; the two intervals the
  adapter configuration (\<open>None\<close> or 0: unset, the default applies).
\<close>

record 'v env =
  set_err :: "string \<Rightarrow> string option"
  push_err :: "string option"
  get_playing :: "string + 'v playing_data"
  get_power :: "string + bool"
  cfg :: "string \<Rightarrow> 'v option"
  pollingInterval :: "nat option"
  artworkInterval :: "nat option"

definition emit :: "'v dm_effect \<Rightarrow> 'v dm \<Rightarrow> 'v dm" where
  "emit e st = st\<lparr>trace := trace st @ [e]\<rparr>"

text \<open>\<^verbatim>\<open>_setState\<close>: the call is made; its outcome is the collaborator's.\<close>

definition setState :: "'v env \<Rightarrow> string \<Rightarrow> 'v sval \<Rightarrow> 'v dm \<Rightarrow> string option \<times> 'v dm" where
  "setState en path v st = (set_err en path, emit (SetState path v) st)"

text \<open>A run of awaited \<^verbatim>\<open>_setState\<close> calls: the first rejection ends it.\<close>

fun setStates :: "'v env \<Rightarrow> (string \<times> 'v sval) list \<Rightarrow> 'v dm \<Rightarrow> string option \<times> 'v dm" where
  "setStates en [] st = (None, st)"
| "setStates en ((p, v) # us) st =
     (case setState en p v st of
        (Some e, st') \<Rightarrow> (Some e, st')
      | (None, st') \<Rightarrow> setStates en us st')"

definition playing_updates :: "'v playing_data \<Rightarrow> (string \<times> 'v sval) list" where
  "playing_updates d =
     [(''playing.title'', VRaw (pd_title d)),
      (''playing.artist'', VRaw (pd_artist d)),
      (''playing.album'', VRaw (pd_album d)),
      (''playing.genre'', VRaw (pd_genre d)),
      (''playing.mediaType'', VRaw (pd_mediaType d)),
      (''playing.deviceState'', VRaw (pd_deviceState d)),
      (''playing.app'', VRaw (pd_app d)),
      (''playing.appId'', VRaw (pd_appId d)),
      (''playing.position'', VRaw (pd_position d)),
      (''playing.duration'', VRaw (pd_duration d)),
      (''playing.shuffle'', VRaw (pd_shuffle d)),
      (''playing.repeat'', VRaw (pd_repeat d)),
      (''apps.current'', VRaw (pd_app d)),
      (''apps.currentId'', VRaw (pd_appId d))]"

definition updatePlayingStates :: "'v env \<Rightarrow> 'v playing_data \<Rightarrow> 'v dm \<Rightarrow> string option \<times> 'v dm" where
  "updatePlayingStates en d st = setStates en (playing_updates d) st"

definition or_empty :: "'v option \<Rightarrow> 'v sval" where
  "or_empty x = (case x of Some v \<Rightarrow> VRaw v | None \<Rightarrow> VStr [])"

definition devinfo_updates :: "'v env \<Rightarrow> (string \<times> 'v sval) list" where
  "devinfo_updates en =
     [(''info.name'', or_empty (cfg en ''name'')),
      (''info.address'', or_empty (cfg en ''address'')),
      (''info.identifier'', or_empty (cfg en ''identifier'')),
      (''info.mac'', or_empty (cfg en ''mac'')),
      (''info.model'', (case cfg en ''modelStr'' of Some v \<Rightarrow> VRaw v
                         | None \<Rightarrow> or_empty (cfg en ''model''))),
      (''info.modelId'', or_empty (cfg en ''model'')),
      (''info.os'', or_empty (cfg en ''os'')),
      (''info.osVersion'', or_empty (cfg en ''osVersion'')),
      (''info.paired'', VBool (cfg en ''airplayCredentials'' \<noteq> None
                              \<or> cfg en ''companionCredentials'' \<noteq> None
                              \<or> cfg en ''mrpCredentials'' \<noteq> None))]"

text \<open>\<^verbatim>\<open>_updateDeviceInfo\<close>: its own try/catch turns a rejection into a debug line.\<close>

definition updateDeviceInfo :: "'v env \<Rightarrow> 'v dm \<Rightarrow> 'v dm" where
  "updateDeviceInfo en st =
     (case setStates en (devinfo_updates en) st of
        (None, st') \<Rightarrow> st'
      | (Some e, st') \<Rightarrow> emit (Log (L_devinfo_failed e)) st')"

definition interval_ms :: "nat option \<Rightarrow> nat \<Rightarrow> nat" where
  "interval_ms configured dflt =
     (case configured of
        None \<Rightarrow> dflt * 1000
      | Some n \<Rightarrow> (if n = 0 then dflt else n) * 1000)"

text \<open>\<^verbatim>\<open>_startPolling\<close> and \<^verbatim>\<open>_startArtworkPolling\<close> store a new interval timer.\<close>

definition startPolling :: "'v env \<Rightarrow> 'v dm \<Rightarrow> 'v dm" where
  "startPolling en st = st\<lparr>pollTimer := Some (interval_ms (pollingInterval en) 10)\<rparr>"

definition startArtworkPolling :: "'v env \<Rightarrow> 'v dm \<Rightarrow> 'v dm" where
  "startArtworkPolling en st = st\<lparr>artworkTimer := Some (interval_ms (artworkInterval en) 30)\<rparr>"

text \<open>
  \<^verbatim>\<open>connect()\<close>: device info first, then push mode inside a try block whose catch falls
  back to polling. The catch also receives a rejection of the awaited
  \<^verbatim>\<open>_setState('info.connected', true)\<close>, after the handle, the flag and the counter were set.
\<close>

definition connect :: "'v env \<Rightarrow> 'v dm \<Rightarrow> 'v dm" where
  "connect en st =
     (let s1 = updateDeviceInfo en (emit (Log L_connecting) (emit (Call M_connect) st)) in
      case push_err en of
        Some e \<Rightarrow> startPolling en (emit (Log (L_push_failed e)) s1)
      | None \<Rightarrow>
          (let s2 = s1\<lparr>pushHandle := True, connected := True, reconnectAttempts := 0\<rparr> in
           case setState en ''info.connected'' (VBool True) s2 of
             (Some e, s3) \<Rightarrow> startPolling en (emit (Log (L_push_failed e)) s3)
           | (None, s3) \<Rightarrow> startArtworkPolling en (emit (Log L_push_active) s3)))"

text \<open>
  \<^verbatim>\<open>disconnect()\<close>: the four slots, each behind its own check, then the flag and the
  awaited state write, whose rejection is the method's.
\<close>

definition disconnect :: "'v env \<Rightarrow> 'v dm \<Rightarrow> string option \<times> 'v dm" where
  "disconnect en st =
     (let s0 = emit (Call M_disconnect) st;
          s1 = (if pushHandle s0 then (emit StopPush s0)\<lparr>pushHandle := False\<rparr> else s0);
          s2 = (if pollTimer s1 \<noteq> None then (emit ClearPollTimer s1)\<lparr>pollTimer := None\<rparr> else s1);
          s3 = (if reconnectTimer s2 \<noteq> None
                then (emit ClearReconnectTimer s2)\<lparr>reconnectTimer := None\<rparr> else s2);
          s4 = (if artworkTimer s3 \<noteq> None
                then (emit ClearArtworkTimer s3)\<lparr>artworkTimer := None\<rparr> else s3)
      in setState en ''info.connected'' (VBool False) (s4\<lparr>connected := False\<rparr>))"

text \<open>The delay \<^verbatim>\<open>Math.min(RECONNECT_BASE_DELAY * Math.pow(2, attempts), RECONNECT_MAX_DELAY)\<close>.\<close>

definition reconnect_delay :: "nat \<Rightarrow> nat" where
  "reconnect_delay attempts = min (RECONNECT_BASE_DELAY * 2 ^ attempts) RECONNECT_MAX_DELAY"

text \<open>
  \<^verbatim>\<open>_scheduleReconnect()\<close>. The timer's callback is \<open>reconnect_fire\<close> below; the field
  holds the delay the timer was set with.
\<close>

definition scheduleReconnect :: "'v dm \<Rightarrow> 'v dm" where
  "scheduleReconnect st =
     (let s0 = emit (Call M_scheduleReconnect) st in
      if reconnectTimer s0 \<noteq> None then s0
      else if reconnectAttempts s0 \<ge> MAX_RECONNECT_ATTEMPTS then emit (Log L_max_reconnect) s0
      else
        (let delay = reconnect_delay (reconnectAttempts s0);
             s1 = s0\<lparr>reconnectAttempts := reconnectAttempts s0 + 1\<rparr>;
             s2 = emit (Log (L_reconnecting delay (reconnectAttempts s1))) s1
         in s2\<lparr>reconnectTimer := Some delay\<rparr>))"

text \<open>
  The callback of the reconnect timer (\<open>reconnect_fire\<close>: it runs when the pending
  timer expires; with no timer pending there is nothing to run): it clears the field, awaits \<^verbatim>\<open>disconnect()\<close> and
  then \<^verbatim>\<open>connect()\<close>; a rejection is logged and the scheduler is called again.
  \<open>connect\<close> catches every failure of its collaborators itself, so only \<open>disconnect\<close>
  can reject here.
\<close>

definition reconnect_callback :: "'v env \<Rightarrow> 'v dm \<Rightarrow> 'v dm" where
  "reconnect_callback en st =
     (case disconnect en (st\<lparr>reconnectTimer := None\<rparr>) of
        (None, s1) \<Rightarrow> connect en s1
      | (Some e, s1) \<Rightarrow> scheduleReconnect (emit (Log (L_reconnect_failed e)) s1))"

definition reconnect_fire :: "'v env \<Rightarrow> 'v dm \<Rightarrow> 'v dm" where
  "reconnect_fire en st = (if reconnectTimer st = None then st else reconnect_callback en st)"

text \<open>
  \<^verbatim>\<open>_handlePushEvent\<close>. None of the state writes is awaited here, so a rejection is
  not this method's; for a \<^verbatim>\<open>playing\<close> event the writes of \<^verbatim>\<open>_updatePlayingStates\<close>
  stop at the first rejection.
\<close>

definition handlePushEvent :: "'v env \<Rightarrow> 'v push_event \<Rightarrow> 'v dm \<Rightarrow> 'v dm" where
  "handlePushEvent en ev st =
     (case ev of
        EvPlaying d \<Rightarrow> snd (updatePlayingStates en d st)
      | EvPower b \<Rightarrow> snd (setState en ''power.state'' (VBool b) st)
      | EvVolume v \<Rightarrow> snd (setState en ''volume.level'' (VRaw v) st)
      | EvConnection c r \<Rightarrow>
          (if \<not> c
           then scheduleReconnect
                  (snd (setState en ''info.connected'' (VBool False)
                         ((emit (Log (L_conn_lost r)) st)\<lparr>connected := False\<rparr>)))
           else st))"

text \<open>
  The callback of the poll timer (\<^verbatim>\<open>_startPolling\<close>): \<open>poll_try\<close> is its try block,
  with the error it throws if it does, \<open>poll_catch\<close> its catch block.
\<close>

definition poll_try :: "'v env \<Rightarrow> 'v dm \<Rightarrow> string option \<times> 'v dm" where
  "poll_try en st =
     (case get_playing en of
        Inl e \<Rightarrow> (Some e, st)
      | Inr d \<Rightarrow>
          (case updatePlayingStates en d st of
             (Some e, s1) \<Rightarrow> (Some e, s1)
           | (None, s1) \<Rightarrow>
               (case get_power en of
                  Inl e \<Rightarrow> (Some e, s1)
                | Inr p \<Rightarrow>
                    (case setState en ''power.state'' (VBool p) s1 of
                       (Some e, s2) \<Rightarrow> (Some e, s2)
                     | (None, s2) \<Rightarrow>
                         (if \<not> connected s2
                          then setState en ''info.connected'' (VBool True)
                                 (s2\<lparr>connected := True, reconnectAttempts := 0\<rparr>)
                          else (None, s2))))))"

definition poll_catch :: "'v env \<Rightarrow> string \<Rightarrow> 'v dm \<Rightarrow> 'v dm" where
  "poll_catch en e st =
     (let s1 = emit (Log (L_poll_failed e)) st in
      if connected s1
      then snd (setState en ''info.connected'' (VBool False) (s1\<lparr>connected := False\<rparr>))
      else s1)"

definition poll_tick :: "'v env \<Rightarrow> 'v dm \<Rightarrow> 'v dm" where
  "poll_tick en st =
     (case poll_try en st of
        (None, s) \<Rightarrow> s
      | (Some e, s) \<Rightarrow> poll_catch en e s)"

text \<open>The handlers through which a connectivity session is driven.\<close>

datatype 'v dm_op =
    OpConnect
  | OpDisconnect
  | OpPushEvent "'v push_event"
  | OpPollTick
  | OpReconnectTimer

definition dm_step :: "'v env \<Rightarrow> 'v dm_op \<Rightarrow> 'v dm \<Rightarrow> 'v dm" where
  "dm_step en op st =
     (case op of
        OpConnect \<Rightarrow> connect en st
      | OpDisconnect \<Rightarrow> snd (disconnect en st)
      | OpPushEvent ev \<Rightarrow> handlePushEvent en ev st
      | OpPollTick \<Rightarrow> poll_tick en st
      | OpReconnectTimer \<Rightarrow> reconnect_fire en st)"

text \<open>The calls of the three tracked methods among the effects, in order.\<close>

fun calls_of :: "'v dm_effect list \<Rightarrow> dm_method list" where
  "calls_of [] = []"
| "calls_of (Call m # es) = m # calls_of es"
| "calls_of (_ # es) = calls_of es"

text \<open>
  The tracked methods one handler run enters, and whether the reconnect scheduler is
  among them.
\<close>

definition new_calls :: "'v env \<Rightarrow> 'v dm_op \<Rightarrow> 'v dm \<Rightarrow> dm_method list" where
  "new_calls en op st =
     drop (length (calls_of (trace st))) (calls_of (trace (dm_step en op st)))"

definition invokes_scheduler :: "'v env \<Rightarrow> 'v dm_op \<Rightarrow> 'v dm \<Rightarrow> bool" where
  "invokes_scheduler en op st = (M_scheduleReconnect \<in> set (new_calls en op st))"

text \<open>The state of a freshly constructed \<^verbatim>\<open>DeviceManager\<close>.\<close>

definition dm_init :: "'v dm" where
  "dm_init = \<lparr>pushHandle = False, pollTimer = None, reconnectTimer = None,
     artworkTimer = None, connected = False, reconnectAttempts = 0, trace = []\<rparr>"

text \<open>A collaborator environment in which every state write is rejected.\<close>

definition env_sink_down :: "unit env" where
  "env_sink_down = \<lparr>set_err = (\<lambda>_. Some ''DB closed''), push_err = None,
     get_playing = Inl ''timeout'', get_power = Inl ''timeout'', cfg = (\<lambda>_. None),
     pollingInterval = None, artworkInterval = None\<rparr>"

text \<open>A collaborator environment in which every state write succeeds.\<close>

definition env_sink_up :: "unit env" where
  "env_sink_up = \<lparr>set_err = (\<lambda>_. None), push_err = None,
     get_playing = Inl ''timeout'', get_power = Inl ''timeout'', cfg = (\<lambda>_. None),
     pollingInterval = None, artworkInterval = None\<rparr>"

section \<open>Strings of the runtime\<close>

text \<open>
  A string is a list of \<open>char\<close>: the code units below 256. In that range the white space
  of \<^verbatim>\<open>String.prototype.trim\<close> and of the regular expression class \<^verbatim>\<open>\s\<close> is TAB,
  LF, VT, FF, CR, SPACE and NBSP, and the line terminators the regular expression \<^verbatim>\<open>.\<close>
  refuses are LF and CR.
\<close>

definition is_space :: "char \<Rightarrow> bool" where
  "is_space c = (c \<in> set [CHR 0x09, CHR 0x0A, CHR 0x0B, CHR 0x0C, CHR 0x0D, CHR 0x20, CHR 0xA0])"

definition is_line_terminator :: "char \<Rightarrow> bool" where
  "is_line_terminator c = (c = CHR 0x0A \<or> c = CHR 0x0D)"

definition trim :: "string \<Rightarrow> string" where
  "trim s = rev (dropWhile is_space (rev (dropWhile is_space s)))"

text \<open>
  \<^verbatim>\<open>s.split('\n')\<close>: the pieces between line feeds; never empty, the last piece is what
  follows the last line feed.
\<close>

fun split_nl :: "string \<Rightarrow> string list" where
  "split_nl [] = [[]]"
| "split_nl (c # cs) =
     (if c = CHR 0x0A then [] # split_nl cs
      else (case split_nl cs of l # ls \<Rightarrow> (c # l) # ls | [] \<Rightarrow> [[c]]))"

section \<open>Credential extraction (PyatvBackend._extractCredentials)\<close>

text \<open>
  The regular expression \<^verbatim>\<open>/[Cc]redentials?:\s*(.+)/\<close>, by the backtracking order of the
  runtime. \<open>ws_then_rest\<close> is \<^verbatim>\<open>\s*(.+)\<close> at the start of a string: the greedy star takes
  a white space character if the rest then still matches, the group takes every character
  up to the first line terminator and needs one at least. The result is the group.
\<close>

definition dot_plus :: "string \<Rightarrow> string option" where
  "dot_plus s =
     (let g = takeWhile (\<lambda>c. \<not> is_line_terminator c) s in if g = [] then None else Some g)"

fun ws_then_rest :: "string \<Rightarrow> string option" where
  "ws_then_rest [] = None"
| "ws_then_rest (c # cs) =
     (if is_space c
      then (case ws_then_rest cs of Some g \<Rightarrow> Some g | None \<Rightarrow> dot_plus (c # cs))
      else dot_plus (c # cs))"

definition colon_then_rest :: "string \<Rightarrow> string option" where
  "colon_then_rest s =
     (case s of [] \<Rightarrow> None | c # cs \<Rightarrow> if c = CHR '':'' then ws_then_rest cs else None)"

text \<open>The expression anchored at the start of \<open>s\<close>; the optional \<^verbatim>\<open>s\<close> is tried first.\<close>

definition match_here :: "string \<Rightarrow> string option" where
  "match_here s =
     (case s of
        [] \<Rightarrow> None
      | c # r \<Rightarrow>
          if (c = CHR ''C'' \<or> c = CHR ''c'') \<and> take 9 r = ''redential''
          then (let r1 = drop 9 r;
                    with_s = (case r1 of [] \<Rightarrow> None
                               | x # r2 \<Rightarrow> if x = CHR ''s'' then colon_then_rest r2 else None)
                in case with_s of Some g \<Rightarrow> Some g | None \<Rightarrow> colon_then_rest r1)
          else None)"

text \<open>\<^verbatim>\<open>line.match(re)\<close>: the leftmost position where the expression matches.\<close>

fun regex_match :: "string \<Rightarrow> string option" where
  "regex_match [] = match_here []"
| "regex_match (c # cs) =
     (case match_here (c # cs) of Some g \<Rightarrow> Some g | None \<Rightarrow> regex_match cs)"

text \<open>\<^verbatim>\<open>/^[0-9a-fA-F:]+$/.test(l) && l.length > 20\<close>.\<close>

definition is_hex_colon :: "char \<Rightarrow> bool" where
  "is_hex_colon c = (c \<in> set ''0123456789abcdefABCDEF:'')"

definition looks_like_credentials :: "string \<Rightarrow> bool" where
  "looks_like_credentials l = (l \<noteq> [] \<and> list_all is_hex_colon l \<and> length l > 20)"

text \<open>The lines the function scans: split at line feeds, trimmed, empty ones dropped.\<close>

definition cred_lines :: "string \<Rightarrow> string list" where
  "cred_lines out = filter (\<lambda>l. l \<noteq> []) (map trim (split_nl out))"

text \<open>The first loop: the first line the expression matches, with its group.\<close>

fun first_match :: "string list \<Rightarrow> string option" where
  "first_match [] = None"
| "first_match (l # ls) =
     (case regex_match l of Some g \<Rightarrow> Some g | None \<Rightarrow> first_match ls)"

text \<open>\<^verbatim>\<open>_extractCredentials\<close>; \<open>None\<close> is \<^verbatim>\<open>null\<close>. The second loop runs from the last
  line to the first.\<close>

definition extractCredentials :: "string \<Rightarrow> string option" where
  "extractCredentials out =
     (let lines = cred_lines out in
      case first_match lines of
        Some g \<Rightarrow> Some (trim g)
      | None \<Rightarrow> find looks_like_credentials (rev lines))"

section \<open>JSON values of the runtime\<close>

text \<open>
  What \<^verbatim>\<open>JSON.parse\<close> returns. The number type is left open: a type with a zero, the one
  falsy number a parse can yield. An object is its list of properties, looked up by key.
\<close>

datatype 'n json =
    JNull
  | JBool bool
  | JNum 'n
  | JStr string
  | JArr "'n json list"
  | JObj "(string \<times> 'n json) list"

text \<open>Truthiness, as \<^verbatim>\<open>||\<close> and \<^verbatim>\<open>if\<close> test it.\<close>

fun truthy :: "('n::zero) json \<Rightarrow> bool" where
  "truthy JNull = False"
| "truthy (JBool b) = b"
| "truthy (JNum n) = (n \<noteq> 0)"
| "truthy (JStr s) = (s \<noteq> [])"
| "truthy (JArr _) = True"
| "truthy (JObj _) = True"

text \<open>
  Reading a property of a value that is not \<^verbatim>\<open>null\<close>: \<open>None\<close> is \<^verbatim>\<open>undefined\<close>. None of
  the keys the code reads is a built-in property of a string, number, boolean or array.
  Reading a property of \<^verbatim>\<open>null\<close> throws, which the callers below write out.
\<close>

fun field :: "'n json \<Rightarrow> string \<Rightarrow> 'n json option" where
  "field (JObj kvs) k = map_of kvs k"
| "field _ k = None"

text \<open>\<^verbatim>\<open>v.k || d\<close>.\<close>

definition or_default :: "('n::zero) json \<Rightarrow> string \<Rightarrow> 'n json \<Rightarrow> 'n json" where
  "or_default v k d = (case field v k of Some x \<Rightarrow> if truthy x then x else d | None \<Rightarrow> d)"

text \<open>\<^verbatim>\<open>String.prototype.toLowerCase\<close> on code units below 256.\<close>

definition lower_char :: "char \<Rightarrow> char" where
  "lower_char c =
     (let n = (of_char c :: nat) in
      if (65 \<le> n \<and> n \<le> 90) \<or> (192 \<le> n \<and> n \<le> 222 \<and> n \<noteq> 215)
      then char_of (n + 32) else c)"

definition toLowerCase :: "string \<Rightarrow> string" where
  "toLowerCase s = map lower_char s"

text \<open>
  \<^verbatim>\<open>(v.k || d).toLowerCase()\<close> with a string literal \<open>d\<close>: a truthy value that is not a
  string has no such method, and the call throws a TypeError (\<open>None\<close>).
\<close>

definition lower_or :: "('n::zero) json \<Rightarrow> string \<Rightarrow> string \<Rightarrow> 'n json option" where
  "lower_or v k d =
     (case or_default v k (JStr d) of
        JStr s \<Rightarrow> Some (JStr (toLowerCase s))
      | _ \<Rightarrow> None)"

section \<open>Push updates of the subprocess backend (PyatvBackend.startPushUpdates)\<close>

datatype 'n push_log =
    PL_push_error "'n json"
  | PL_parse_failed string
  | PL_stderr string
  | PL_process_error string
  | PL_exited "int option"

text \<open>
  The payload of the \<^verbatim>\<open>playing\<close> event \<^verbatim>\<open>_processPushEvent\<close> builds; \<open>None\<close> when one of
  the four \<^verbatim>\<open>toLowerCase\<close> calls throws, before \<^verbatim>\<open>onUpdate\<close> is called.
\<close>

definition playing_of :: "('n::zero) json \<Rightarrow> 'n json playing_data option" where
  "playing_of e =
     (case (lower_or e ''media_type'' ''unknown'', lower_or e ''device_state'' ''idle'',
            lower_or e ''shuffle'' ''off'', lower_or e ''repeat'' ''off'') of
        (Some mt, Some ds, Some sh, Some rp) \<Rightarrow>
          Some \<lparr>pd_title = or_default e ''title'' (JStr []),
                pd_artist = or_default e ''artist'' (JStr []),
                pd_album = or_default e ''album'' (JStr []),
                pd_genre = or_default e ''genre'' (JStr []),
                pd_mediaType = mt,
                pd_deviceState = ds,
                pd_app = or_default e ''app'' (JStr []),
                pd_appId = or_default e ''app_id'' (JStr []),
                pd_position = or_default e ''position'' (JNum 0),
                pd_duration = or_default e ''total_time'' (JNum 0),
                pd_shuffle = sh,
                pd_repeat = rp\<rparr>
      | _ \<Rightarrow> None)"

text \<open>
  \<^verbatim>\<open>_processPushEvent(event, onUpdate)\<close> for an object or array \<open>e\<close>: the calls of
  \<^verbatim>\<open>onUpdate\<close> in order, and whether the method threw (then the later calls are not made).
\<close>

definition processPushEvent :: "('n::zero) json \<Rightarrow> 'n json push_event list \<times> bool" where
  "processPushEvent e =
     (let power = (case field e ''power_state'' of
                     Some v \<Rightarrow> [EvPower (v = JStr ''on'')] | None \<Rightarrow> []);
          volume = (case field e ''volume'' of Some v \<Rightarrow> [EvVolume v] | None \<Rightarrow> []);
          conn = (case field e ''connection'' of
                    Some v \<Rightarrow> [EvConnection False v] | None \<Rightarrow> [])
      in if field e ''title'' \<noteq> None \<or> field e ''device_state'' \<noteq> None
         then (case playing_of e of
                 None \<Rightarrow> (power, True)
               | Some d \<Rightarrow> (power @ [EvPlaying d] @ volume @ conn, False))
         else (power @ volume @ conn, False))"

text \<open>
  The body of the loop over complete lines: the events and log lines one line produces.
  \<open>parse\<close> is \<^verbatim>\<open>JSON.parse\<close> (\<open>None\<close>: it throws). The catch block receives a parse error,
  the TypeError of reading \<^verbatim>\<open>result\<close> of \<^verbatim>\<open>null\<close>, and whatever \<^verbatim>\<open>_processPushEvent\<close>
  throws; only an object can carry \<^verbatim>\<open>result === 'success'\<close>.
\<close>

definition handle_line ::
  "(string \<Rightarrow> ('n::zero) json option) \<Rightarrow> string \<Rightarrow> 'n json push_event list \<times> 'n push_log list" where
  "handle_line parse line =
     (if trim line = [] then ([], [])
      else
        (case parse line of
           None \<Rightarrow> ([], [PL_parse_failed line])
         | Some JNull \<Rightarrow> ([], [PL_parse_failed line])
         | Some e \<Rightarrow>
             if field e ''result'' \<noteq> Some (JStr ''success'') then ([], [PL_push_error e])
             else (case processPushEvent e of
                     (evs, True) \<Rightarrow> (evs, [PL_parse_failed line])
                   | (evs, False) \<Rightarrow> (evs, []))))"

text \<open>
  What the handlers of one \<^verbatim>\<open>startPushUpdates\<close> call share: the line buffer, and what they
  have done so far, the calls of \<^verbatim>\<open>onUpdate\<close> and the log lines, each in order.
\<close>

record 'n push =
  buffer :: string
  events :: "'n json push_event list"
  plog :: "'n push_log list"

definition push_init :: "'n push" where
  "push_init = \<lparr>buffer = [], events = [], plog = []\<rparr>"

definition on_line :: "(string \<Rightarrow> ('n::zero) json option) \<Rightarrow> 'n push \<Rightarrow> string \<Rightarrow> 'n push" where
  "on_line parse st line =
     (case handle_line parse line of
        (evs, logs) \<Rightarrow> st\<lparr>events := events st @ evs, plog := plog st @ logs\<rparr>)"

text \<open>The \<^verbatim>\<open>data\<close> handler of stdout; \<^verbatim>\<open>lines.pop()\<close> is the last piece.\<close>

definition on_stdout :: "(string \<Rightarrow> ('n::zero) json option) \<Rightarrow> 'n push \<Rightarrow> string \<Rightarrow> 'n push" where
  "on_stdout parse st chunk =
     (let lines = split_nl (buffer st @ chunk)
      in foldl (on_line parse) (st\<lparr>buffer := last lines\<rparr>) (butlast lines))"

definition on_stderr :: "'n push \<Rightarrow> string \<Rightarrow> 'n push" where
  "on_stderr st chunk = st\<lparr>plog := plog st @ [PL_stderr chunk]\<rparr>"

text \<open>The \<^verbatim>\<open>error\<close> and \<^verbatim>\<open>exit\<close> handlers of the process.\<close>

definition on_error :: "'n push \<Rightarrow> string \<Rightarrow> 'n push" where
  "on_error st msg =
     st\<lparr>plog := plog st @ [PL_process_error msg],
        events := events st @ [EvConnection False (JStr ''process_error'')]\<rparr>"

definition on_exit :: "'n push \<Rightarrow> int option \<Rightarrow> 'n push" where
  "on_exit st code =
     st\<lparr>plog := plog st @ [PL_exited code],
        events := events st @ [EvConnection False (JStr ''process_exit'')]\<rparr>"

text \<open>What the runtime tells the handlers about the process, one notification at a time.\<close>

datatype notification =
    Stdout string
  | Stderr string
  | ProcError string
  | ProcExit "int option"

fun push_step :: "(string \<Rightarrow> ('n::zero) json option) \<Rightarrow> 'n push \<Rightarrow> notification \<Rightarrow> 'n push" where
  "push_step parse st (Stdout chunk) = on_stdout parse st chunk"
| "push_step parse st (Stderr chunk) = on_stderr st chunk"
| "push_step parse st (ProcError msg) = on_error st msg"
| "push_step parse st (ProcExit code) = on_exit st code"

definition push_run :: "(string \<Rightarrow> ('n::zero) json option) \<Rightarrow> notification list \<Rightarrow> 'n push" where
  "push_run parse ns = foldl (push_step parse) push_init ns"

text \<open>A stand-in for \<^verbatim>\<open>JSON.parse\<close> on four sample lines; every other line is malformed.\<close>

definition sample_parse :: "string \<Rightarrow> int json option" where
  "sample_parse line =
     (if line = ''{\"result\":\"success\",\"power_state\":\"on\"}''
        then Some (JObj [(''result'', JStr ''success''), (''power_state'', JStr ''on'')])
      else if line = ''{\"result\":\"success\",\"volume\":40}''
        then Some (JObj [(''result'', JStr ''success''), (''volume'', JNum 40)])
      else if line = ''{\"result\":\"success\",\"connection\":\"lost\"}''
        then Some (JObj [(''result'', JStr ''success''), (''connection'', JStr ''lost'')])
      else if line = ''{\"result\":\"failure\"}''
        then Some (JObj [(''result'', JStr ''failure'')])
      else None)"

section \<open>One-shot queries of the subprocess backend\<close>

text \<open>
  The device configuration a backend is built with; an empty string is a missing (falsy)
  field.
\<close>

record deviceConfig =
  dc_identifier :: string
  dc_address :: string
  dc_mrp :: string
  dc_airplay :: string
  dc_companion :: string

text \<open>\<^verbatim>\<open>_buildDeviceArgs\<close>.\<close>

definition buildDeviceArgs :: "deviceConfig \<Rightarrow> string list" where
  "buildDeviceArgs c =
     (if dc_identifier c \<noteq> [] then [''--id'', dc_identifier c]
      else if dc_address c \<noteq> [] then [''-s'', dc_address c] else [])
     @ (if dc_mrp c \<noteq> [] then [''--mrp-credentials'', dc_mrp c] else [])
     @ (if dc_airplay c \<noteq> [] then [''--airplay-credentials'', dc_airplay c] else [])
     @ (if dc_companion c \<noteq> [] then [''--companion-credentials'', dc_companion c] else [])"

text \<open>
  What \<^verbatim>\<open>execFile\<close> calls back with: an error (its message, and stderr), or the stdout of
  a run that ended well.
\<close>

datatype exec_outcome = ExecFailed string string | ExecDone string

text \<open>
  The errors of a one-shot query: the process failed (message, stderr); the tool answered
  \<^verbatim>\<open>result: 'failure'\<close> (with \<^verbatim>\<open>error || exception || 'unknown'\<close>); the output did not
  parse (with its first 200 characters); a TypeError of the runtime.
\<close>

datatype 'n atv_error =
    AtvscriptFailed string string
  | AtvscriptError "'n json"
  | AtvscriptUnparsable string
  | TypeError

text \<open>
  The callback of \<^verbatim>\<open>_execAtvscript\<close>. Reading \<^verbatim>\<open>result\<close> of a parsed \<^verbatim>\<open>null\<close> throws
  inside the try block, so it ends in the same catch as a parse error.
\<close>

definition execAtvscript ::
  "(string \<Rightarrow> ('n::zero) json option) \<Rightarrow> exec_outcome \<Rightarrow> 'n atv_error + 'n json" where
  "execAtvscript parse outcome =
     (case outcome of
        ExecFailed msg err \<Rightarrow> Inl (AtvscriptFailed msg err)
      | ExecDone out \<Rightarrow>
          (case parse (trim out) of
             None \<Rightarrow> Inl (AtvscriptUnparsable (take 200 out))
           | Some JNull \<Rightarrow> Inl (AtvscriptUnparsable (take 200 out))
           | Some r \<Rightarrow>
               if field r ''result'' = Some (JStr ''failure'')
               then Inl (AtvscriptError
                          (or_default r ''error'' (or_default r ''exception'' (JStr ''unknown''))))
               else Inr r))"

record 'n app =
  app_name :: "'n json"
  app_id :: "'n json"

text \<open>
  \<^verbatim>\<open>apps.map(a => ({name: a.name || '', id: a.identifier || ''}))\<close>: a \<^verbatim>\<open>null\<close> element
  throws (\<open>None\<close>).
\<close>

fun map_apps :: "('n::zero) json list \<Rightarrow> 'n app list option" where
  "map_apps [] = Some []"
| "map_apps (JNull # as) = None"
| "map_apps (a # as) =
     (case map_apps as of
        None \<Rightarrow> None
      | Some rest \<Rightarrow>
          Some (\<lparr>app_name = or_default a ''name'' (JStr []),
                 app_id = or_default a ''identifier'' (JStr [])\<rparr> # rest))"

text \<open>
  The try block of \<^verbatim>\<open>PyatvBackend.getAppList\<close>: the query, then
  \<^verbatim>\<open>(result.apps || []).map(...)\<close>; a truthy \<^verbatim>\<open>apps\<close> that is not an array has no
  \<^verbatim>\<open>map\<close> method.
\<close>

definition getAppList_try ::
  "(string \<Rightarrow> ('n::zero) json option) \<Rightarrow> exec_outcome \<Rightarrow> 'n atv_error + 'n app list" where
  "getAppList_try parse outcome =
     (case execAtvscript parse outcome of
        Inl e \<Rightarrow> Inl e
      | Inr r \<Rightarrow>
          (case field r ''apps'' of
             None \<Rightarrow> Inr []
           | Some v \<Rightarrow>
               if \<not> truthy v then Inr []
               else (case v of
                       JArr as \<Rightarrow> (case map_apps as of None \<Rightarrow> Inl TypeError
                                     | Some l \<Rightarrow> Inr l)
                     | _ \<Rightarrow> Inl TypeError)))"

definition getAppList_args :: "deviceConfig \<Rightarrow> string list" where
  "getAppList_args c = buildDeviceArgs c @ [''app_list'']"

datatype 'n applist_warning = W_applist_failed "'n atv_error" | W_applist_unsupported

text \<open>
  \<^verbatim>\<open>getAppList()\<close> of the two backends: how the promise settles (\<open>Inl\<close>: it rejects) and
  the warnings logged.
\<close>

definition getAppList ::
  "(string \<Rightarrow> ('n::zero) json option) \<Rightarrow> exec_outcome
     \<Rightarrow> ('n atv_error + 'n app list) \<times> 'n applist_warning list" where
  "getAppList parse outcome =
     (case getAppList_try parse outcome of
        Inr apps \<Rightarrow> (Inr apps, [])
      | Inl e \<Rightarrow> (Inr [], [W_applist_failed e]))"

definition node_getAppList :: "('n atv_error + 'n app list) \<times> 'n applist_warning list" where
  "node_getAppList = (Inr [], [W_applist_unsupported])"

section \<open>Interactive pairing (PyatvBackend.pairStart, pairFinish, pairAbort)\<close>

text \<open>
  The child processes the runtime knows: for each process number its arguments, the
  \<^verbatim>\<open>killed\<close> flag of its \<^verbatim>\<open>ChildProcess\<close> object, and whether it is gone: it has
  exited, or it could not be spawned. \<open>effects\<close> lists what the code did to processes, in
  order. The path of the tool is left out.
\<close>

datatype peffect = Spawn nat "string list" | Kill nat | Write nat string

record proc =
  p_args :: "string list"
  p_killed :: bool
  p_exited :: bool

record world =
  procs :: "nat \<Rightarrow> proc"
  next_pid :: nat
  effects :: "peffect list"

definition world_init :: world where
  "world_init = \<lparr>procs = (\<lambda>_. \<lparr>p_args = [], p_killed = False, p_exited = True\<rparr>),
     next_pid = 0, effects = []\<rparr>"

definition spawn :: "string list \<Rightarrow> world \<Rightarrow> nat \<times> world" where
  "spawn args w =
     (next_pid w,
      w\<lparr>procs := (procs w)(next_pid w := \<lparr>p_args = args, p_killed = False, p_exited = False\<rparr>),
        next_pid := Suc (next_pid w),
        effects := effects w @ [Spawn (next_pid w) args]\<rparr>)"

text \<open>
  \<^verbatim>\<open>proc.kill('SIGTERM')\<close>: the signal is sent, and the flag set, when the process has
  not exited yet.
\<close>

definition kill :: "nat \<Rightarrow> world \<Rightarrow> world" where
  "kill pid w =
     w\<lparr>procs := (if p_exited (procs w pid) then procs w
                  else (procs w)(pid := (procs w pid)\<lparr>p_killed := True\<rparr>)),
       effects := effects w @ [Kill pid]\<rparr>"

definition exited :: "nat \<Rightarrow> world \<Rightarrow> world" where
  "exited pid w = w\<lparr>procs := (procs w)(pid := (procs w pid)\<lparr>p_exited := True\<rparr>)\<rparr>"

text \<open>A process is live when it was spawned, is not gone and has not been signalled.\<close>

definition live :: "world \<Rightarrow> nat list" where
  "live w = filter (\<lambda>pid. \<not> p_killed (procs w pid) \<and> \<not> p_exited (procs w pid)) [0..<next_pid w]"

text \<open>The live pairing processes started for a device identifier (or address).\<close>

definition live_for :: "string \<Rightarrow> world \<Rightarrow> nat list" where
  "live_for ident w =
     filter (\<lambda>pid. take 2 (p_args (procs w pid)) = [''--id'', ident]
                  \<or> take 2 (p_args (procs w pid)) = [''-s'', ident]) (live w)"

record backend =
  config :: deviceConfig
  pairProcess :: "nat option"

definition new_backend :: "string \<Rightarrow> string \<Rightarrow> backend" where
  "new_backend ident addr =
     \<lparr>config = \<lparr>dc_identifier = ident, dc_address = addr, dc_mrp = [], dc_airplay = [],
                 dc_companion = []\<rparr>,
      pairProcess = None\<rparr>"

text \<open>\<^verbatim>\<open>pairAbort()\<close>.\<close>

definition pairAbort :: "backend \<times> world \<Rightarrow> backend \<times> world" where
  "pairAbort bw =
     (case bw of (b, w) \<Rightarrow>
        (case pairProcess b of
           None \<Rightarrow> (b, w)
         | Some pid \<Rightarrow>
             if \<not> p_killed (procs w pid) then (b\<lparr>pairProcess := None\<rparr>, kill pid w)
             else (b, w)))"

datatype pair_result = AwaitingPin | Paired "string option"

datatype pair_error =
    NoActiveSession
  | PairingTimeout
  | FailedToStart string
  | PairingFailed "int option" string
  | PinTimeout
  | FailedToSendPin string
  | PinFailed "int option" string

text \<open>
  What the runtime delivers to the handlers of a pairing promise: output on stdout or stderr
  (both handlers run the same code), the \<^verbatim>\<open>error\<close> and \<^verbatim>\<open>exit\<close> events of the process
  (the exit code is \<open>None\<close> when a signal ended it), and the expiry of the 30 second timer.
  While \<^verbatim>\<open>pairStart\<close> waits, an \<^verbatim>\<open>error\<close> event says that the process could not be
  spawned: there is no process then, and no \<^verbatim>\<open>exit\<close> event follows.
\<close>

datatype pevent = PData string | PError string | PExit "int option" | PTimeout

text \<open>
  The variables the handlers of one promise close over, with the backend and the processes:
  the collected output, the \<^verbatim>\<open>resolved\<close> flag, whether the timer is pending, how the
  promise settled (\<open>None\<close>: not yet), and the process the handlers are attached to.
\<close>

record pctx =
  pc_out :: string
  pc_resolved :: bool
  pc_timer :: bool
  pc_result :: "(pair_error + pair_result) option"
  pc_pid :: "nat option"
  pc_backend :: backend
  pc_world :: world

text \<open>\<^verbatim>\<open>s.includes(pat)\<close>.\<close>

fun str_includes :: "string \<Rightarrow> string \<Rightarrow> bool" where
  "str_includes [] pat = (pat = [])"
| "str_includes (c # cs) pat = (take (length pat) (c # cs) = pat \<or> str_includes cs pat)"

definition pairStart_args :: "deviceConfig \<Rightarrow> string \<Rightarrow> string list" where
  "pairStart_args c protocol =
     (if dc_identifier c \<noteq> [] then [''--id'', dc_identifier c]
      else if dc_address c \<noteq> [] then [''-s'', dc_address c] else [])
     @ [''--protocol'', if protocol \<noteq> [] then protocol else ''airplay'', ''pair'']"

text \<open>\<^verbatim>\<open>pairStart(protocol)\<close> up to the return of the promise.\<close>

definition pairStart_begin :: "string \<Rightarrow> backend \<times> world \<Rightarrow> pctx" where
  "pairStart_begin protocol bw =
     (case pairAbort bw of (b, w) \<Rightarrow>
        (case spawn (pairStart_args (config b) protocol) w of (pid, w') \<Rightarrow>
           \<lparr>pc_out = [], pc_resolved = False, pc_timer = True, pc_result = None,
            pc_pid = Some pid, pc_backend = b\<lparr>pairProcess := Some pid\<rparr>, pc_world = w'\<rparr>))"

text \<open>The runtime's note that the process of these handlers is gone.\<close>

definition mark_exited :: "pctx \<Rightarrow> pctx" where
  "mark_exited x =
     (case pc_pid x of None \<Rightarrow> x | Some pid \<Rightarrow> x\<lparr>pc_world := exited pid (pc_world x)\<rparr>)"

definition settle :: "pair_error + pair_result \<Rightarrow> pctx \<Rightarrow> pctx" where
  "settle r x = x\<lparr>pc_resolved := True, pc_result := Some r\<rparr>"

definition abort_in :: "pctx \<Rightarrow> pctx" where
  "abort_in x =
     (case pairAbort (pc_backend x, pc_world x) of
        (b, w) \<Rightarrow> x\<lparr>pc_backend := b, pc_world := w\<rparr>)"

text \<open>The handlers \<^verbatim>\<open>pairStart\<close> attaches, and its timer.\<close>

fun pairStart_on :: "pctx \<Rightarrow> pevent \<Rightarrow> pctx" where
  "pairStart_on x (PData chunk) =
     (let x1 = x\<lparr>pc_out := pc_out x @ chunk\<rparr> in
      if \<not> pc_resolved x1 \<and> (str_includes (pc_out x1) ''Enter PIN'' \<or> str_includes (pc_out x1) ''pin:'')
      then settle (Inr AwaitingPin) (x1\<lparr>pc_timer := False\<rparr>)
      else x1)"
| "pairStart_on x (PError msg) =
     (let x1 = (mark_exited x)\<lparr>pc_timer := False\<rparr> in
      if \<not> pc_resolved x1 then settle (Inl (FailedToStart msg)) x1 else x1)"
| "pairStart_on x (PExit code) =
     (let x1 = (mark_exited x)\<lparr>pc_timer := False\<rparr> in
      if \<not> pc_resolved x1
      then (if str_includes (pc_out x1) ''credentials:'' \<or> str_includes (pc_out x1) ''Credentials:''
            then settle (Inr (Paired (extractCredentials (pc_out x1)))) x1
            else settle (Inl (PairingFailed code (take 300 (pc_out x1)))) x1)
      else x1)"
| "pairStart_on x PTimeout =
     (if pc_timer x
      then (let x1 = x\<lparr>pc_timer := False\<rparr> in
            if \<not> pc_resolved x1
            then settle (Inl PairingTimeout) (abort_in (x1\<lparr>pc_resolved := True\<rparr>))
            else x1)
      else x)"

text \<open>
  \<^verbatim>\<open>pairFinish(pin)\<close> up to the return of the promise: the guard throws, which rejects at
  once; otherwise the timer is set, the handlers are attached and the PIN is written to the
  stdin of the process. \<open>write_err\<close> is the error that write throws, if it does.
\<close>

definition pairFinish_begin :: "string \<Rightarrow> string option \<Rightarrow> backend \<times> world \<Rightarrow> pctx" where
  "pairFinish_begin pin write_err bw =
     (case bw of (b, w) \<Rightarrow>
        (let rejected = \<lparr>pc_out = [], pc_resolved = True, pc_timer = False,
                          pc_result = Some (Inl NoActiveSession), pc_pid = None,
                          pc_backend = b, pc_world = w\<rparr>
         in case pairProcess b of
              None \<Rightarrow> rejected
            | Some pid \<Rightarrow>
                if p_killed (procs w pid) then rejected
                else
                  (let x = \<lparr>pc_out = [], pc_resolved = False, pc_timer = True, pc_result = None,
                            pc_pid = Some pid, pc_backend = b, pc_world = w\<rparr>
                   in case write_err of
                        None \<Rightarrow>
                          x\<lparr>pc_world := w\<lparr>effects := effects w @ [Write pid (pin @ [CHR 0x0A])]\<rparr>\<rparr>
                      | Some msg \<Rightarrow> settle (Inl (FailedToSendPin msg)) (x\<lparr>pc_timer := False\<rparr>))))"

text \<open>
  The handlers \<^verbatim>\<open>pairFinish\<close> attaches, and its timer. It attaches no \<^verbatim>\<open>error\<close> handler.
\<close>

fun pairFinish_on :: "pctx \<Rightarrow> pevent \<Rightarrow> pctx" where
  "pairFinish_on x (PData chunk) = x\<lparr>pc_out := pc_out x @ chunk\<rparr>"
| "pairFinish_on x (PError msg) = x"
| "pairFinish_on x (PExit code) =
     (let x1 = (mark_exited x)\<lparr>pc_timer := False\<rparr> in
      if pc_resolved x1 then x1
      else
        (let x2 = x1\<lparr>pc_resolved := True, pc_backend := (pc_backend x1)\<lparr>pairProcess := None\<rparr>\<rparr> in
         case extractCredentials (pc_out x2) of
           Some c \<Rightarrow>
             if c \<noteq> [] then settle (Inr (Paired (Some c))) x2
             else if code = Some 0 then settle (Inr (Paired (Some (trim (pc_out x2))))) x2
             else settle (Inl (PinFailed code (take 300 (pc_out x2)))) x2
         | None \<Rightarrow>
             if code = Some 0 then settle (Inr (Paired (Some (trim (pc_out x2))))) x2
             else settle (Inl (PinFailed code (take 300 (pc_out x2)))) x2))"
| "pairFinish_on x PTimeout =
     (if pc_timer x
      then (let x1 = x\<lparr>pc_timer := False\<rparr> in
            if \<not> pc_resolved x1
            then settle (Inl PinTimeout) (abort_in (x1\<lparr>pc_resolved := True\<rparr>))
            else x1)
      else x)"

text \<open>The output chunks among the events, joined.\<close>

fun data_of :: "pevent list \<Rightarrow> string" where
  "data_of [] = []"
| "data_of (PData chunk # es) = chunk @ data_of es"
| "data_of (_ # es) = data_of es"

fun is_data_or_error :: "pevent \<Rightarrow> bool" where
  "is_data_or_error (PData _) = True"
| "is_data_or_error (PError _) = True"
| "is_data_or_error _ = False"

text \<open>
  A backend after \<^verbatim>\<open>pairStart\<close> for the device \<^verbatim>\<open>atv1\<close>, with its pairing process
  running as process 0.
\<close>

definition sample_world :: world where
  "sample_world = snd (spawn [''--id'', ''atv1'', ''--protocol'', ''airplay'', ''pair''] world_init)"

definition sample_backend :: backend where
  "sample_backend = (new_backend ''atv1'' [])\<lparr>pairProcess := Some 0\<rparr>"

text \<open>
  \<^verbatim>\<open>pairStart('airplay')\<close> on a new backend for \<^verbatim>\<open>atv1\<close>: the process prints the PIN
  prompt, the promise resolves, and then the process is ended by a signal from outside
  before any PIN is submitted.
\<close>

definition pairing_ended :: pctx where
  "pairing_ended =
     foldl pairStart_on (pairStart_begin ''airplay'' (new_backend ''atv1'' [], world_init))
       [PData ''Enter PIN on screen: '', PExit None]"

section \<open>The pairing messages of the adapter (main.js, onMessage)\<close>

text \<open>
  The payload of a pairing message: \<^verbatim>\<open>identifier\<close>, \<^verbatim>\<open>address\<close> and \<^verbatim>\<open>protocol\<close> are
  strings (empty: missing), \<^verbatim>\<open>pin\<close> is any value or missing.
\<close>

record 'n pair_msg =
  m_identifier :: string
  m_address :: string
  m_protocol :: string
  m_pin :: "'n json option"

datatype admin_error =
    E_no_identifier
  | E_pin_format
  | E_no_session string
  | E_pairing pair_error
  | E_store string

text \<open>What \<^verbatim>\<open>_respond\<close> is called with; \<open>E_pin_format\<close> stands for the message
  \<^verbatim>\<open>PIN must be exactly 4 digits\<close>.\<close>

datatype response =
    Resp_error admin_error
  | Resp_awaitingPin string
  | Resp_paired "string option"
  | Resp_aborted

text \<open>
  The adapter: the map \<^verbatim>\<open>_pairingSessions\<close> from identifier to backend, the processes,
  the responses sent, and the calls of \<^verbatim>\<open>_storePairCredentials\<close> (identifier, protocol,
  credentials), a collaborator whose rejection is a parameter of the handlers.
\<close>

record adapter =
  sessions :: "string \<rightharpoonup> backend"
  a_world :: world
  responses :: "response list"
  store_calls :: "(string \<times> string \<times> string option) list"

definition adapter_init :: adapter where
  "adapter_init = \<lparr>sessions = Map.empty, a_world = world_init, responses = [], store_calls = []\<rparr>"

definition msg_identifier :: "'n pair_msg \<Rightarrow> string" where
  "msg_identifier m = (if m_identifier m \<noteq> [] then m_identifier m else m_address m)"

definition msg_protocol :: "'n pair_msg \<Rightarrow> string" where
  "msg_protocol m = (if m_protocol m \<noteq> [] then m_protocol m else ''airplay'')"

text \<open>\<^verbatim>\<open>String(msg.pin || '')\<close>; \<open>to_str\<close> is the conversion \<^verbatim>\<open>String\<close> of the runtime.\<close>

definition pin_of :: "(('n::zero) json \<Rightarrow> string) \<Rightarrow> 'n pair_msg \<Rightarrow> string" where
  "pin_of to_str m =
     (case m_pin m of None \<Rightarrow> [] | Some v \<Rightarrow> if truthy v then to_str v else [])"

definition respond :: "response \<Rightarrow> adapter \<Rightarrow> adapter" where
  "respond r st = st\<lparr>responses := responses st @ [r]\<rparr>"

definition storePairCredentials ::
  "string option \<Rightarrow> string \<Rightarrow> string \<Rightarrow> string option \<Rightarrow> adapter \<Rightarrow> string option \<times> adapter" where
  "storePairCredentials store_err ident protocol creds st =
     (store_err, st\<lparr>store_calls := store_calls st @ [(ident, protocol, creds)]\<rparr>)"

definition store_and_respond ::
  "string option \<Rightarrow> string \<Rightarrow> string \<Rightarrow> string option \<Rightarrow> adapter \<Rightarrow> adapter" where
  "store_and_respond store_err ident protocol creds st =
     (case storePairCredentials store_err ident protocol creds st of
        (None, st') \<Rightarrow> respond (Resp_paired creds) st'
      | (Some e, st') \<Rightarrow> respond (Resp_error (E_store e)) st')"

text \<open>
  \<^verbatim>\<open>case 'startPairing'\<close>. \<open>evs\<close> is what the new pairing process does while the handler
  awaits \<^verbatim>\<open>pairStart\<close>; with the promise not settled by them the handler has not gone on.
  Every call builds a backend of its own.
\<close>

definition startPairing :: "string option \<Rightarrow> 'n pair_msg \<Rightarrow> pevent list \<Rightarrow> adapter \<Rightarrow> adapter" where
  "startPairing store_err m evs st =
     (let identifier = msg_identifier m in
      if identifier = [] then respond (Resp_error E_no_identifier) st
      else
        (let pairBackend = new_backend (m_identifier m) (m_address m);
             x = foldl pairStart_on (pairStart_begin (msg_protocol m) (pairBackend, a_world st)) evs;
             st1 = st\<lparr>a_world := pc_world x\<rparr>
         in case pc_result x of
              None \<Rightarrow> st1
            | Some (Inl e) \<Rightarrow> respond (Resp_error (E_pairing e)) st1
            | Some (Inr AwaitingPin) \<Rightarrow>
                respond (Resp_awaitingPin identifier)
                  (st1\<lparr>sessions := (sessions st1)(identifier \<mapsto> pc_backend x)\<rparr>)
            | Some (Inr (Paired c)) \<Rightarrow>
                store_and_respond store_err identifier (msg_protocol m) c st1))"

text \<open>
  \<^verbatim>\<open>case 'submitPin'\<close>. \<open>evs\<close> is what the pairing process does while the handler awaits
  \<^verbatim>\<open>pairFinish\<close>. The session keeps the backend object, whose fields the handlers of
  \<^verbatim>\<open>pairFinish\<close> change; it is deleted only when \<^verbatim>\<open>pairFinish\<close> resolves.
\<close>

definition submitPin ::
  "(('n::zero) json \<Rightarrow> string) \<Rightarrow> string option \<Rightarrow> 'n pair_msg \<Rightarrow> string option \<Rightarrow> pevent list
     \<Rightarrow> adapter \<Rightarrow> adapter" where
  "submitPin to_str store_err m write_err evs st =
     (let identifier = msg_identifier m;
          pin = pin_of to_str m
      in if pin = [] \<or> length pin \<noteq> 4 then respond (Resp_error E_pin_format) st
         else
           (case sessions st identifier of
              None \<Rightarrow> respond (Resp_error (E_no_session identifier)) st
            | Some pairBackend \<Rightarrow>
                (let x = foldl pairFinish_on (pairFinish_begin pin write_err (pairBackend, a_world st)) evs;
                     st1 = st\<lparr>a_world := pc_world x,
                              sessions := (sessions st)(identifier \<mapsto> pc_backend x)\<rparr>
                 in case pc_result x of
                      None \<Rightarrow> st1
                    | Some (Inl e) \<Rightarrow> respond (Resp_error (E_pairing e)) st1
                    | Some (Inr r) \<Rightarrow>
                        (let st2 = st1\<lparr>sessions := (sessions st1)(identifier := None)\<rparr>;
                             creds = (case r of Paired c \<Rightarrow> c | AwaitingPin \<Rightarrow> None)
                         in case creds of
                              None \<Rightarrow> respond (Resp_paired creds) st2
                            | Some c \<Rightarrow>
                                if c \<noteq> []
                                then store_and_respond store_err identifier (msg_protocol m) creds st2
                                else respond (Resp_paired creds) st2))))"

text \<open>\<^verbatim>\<open>case 'abortPairing'\<close>.\<close>

definition abortPairing :: "'n pair_msg \<Rightarrow> adapter \<Rightarrow> adapter" where
  "abortPairing m st =
     (let identifier = msg_identifier m in
      case sessions st identifier of
        None \<Rightarrow> respond Resp_aborted st
      | Some pairBackend \<Rightarrow>
          (case pairAbort (pairBackend, a_world st) of
             (b, w) \<Rightarrow>
               respond Resp_aborted
                 (st\<lparr>a_world := w, sessions := (sessions st)(identifier := None)\<rparr>)))"

text \<open>A message for the device \<^verbatim>\<open>atv1\<close> with a PIN, and a \<^verbatim>\<open>String\<close> for strings.\<close>

definition sample_msg :: "int json option \<Rightarrow> int pair_msg" where
  "sample_msg pin = \<lparr>m_identifier = ''atv1'', m_address = [], m_protocol = [], m_pin = pin\<rparr>"

definition sample_to_str :: "int json \<Rightarrow> string" where
  "sample_to_str v = (case v of JStr s \<Rightarrow> s | _ \<Rightarrow> ''?'')"

text \<open>The adapter after one \<^verbatim>\<open>startPairing\<close> for \<^verbatim>\<open>atv1\<close> that reached the PIN prompt.\<close>

definition adapter_awaiting :: adapter where
  "adapter_awaiting = startPairing None (sample_msg None) [PData ''Enter PIN on screen: ''] adapter_init"

section \<open>Theorems\<close>

subsection \<open>The reconnect scheduler\<close>

lemma calls_of_append: "calls_of (xs @ ys) = calls_of xs @ calls_of ys"
  by (induction xs rule: calls_of.induct) simp_all

lemma setStates_calls: "calls_of (trace (snd (setStates en us st))) = calls_of (trace st)"
proof (induction us arbitrary: st)
  case Nil
  show ?case by simp
next
  case (Cons u us)
  obtain p v where u: "u = (p, v)" by (cases u)
  show ?case
    using Cons [of "emit (SetState p v) st"]
    by (cases "set_err en p") (simp_all add: u setState_def emit_def calls_of_append)
qed

lemma setStates_frame:
  "reconnectTimer (snd (setStates en us st)) = reconnectTimer st
   \<and> reconnectAttempts (snd (setStates en us st)) = reconnectAttempts st
   \<and> connected (snd (setStates en us st)) = connected st
   \<and> pushHandle (snd (setStates en us st)) = pushHandle st
   \<and> pollTimer (snd (setStates en us st)) = pollTimer st
   \<and> artworkTimer (snd (setStates en us st)) = artworkTimer st"
proof (induction us arbitrary: st)
  case Nil
  show ?case by simp
next
  case (Cons u us)
  obtain p v where u: "u = (p, v)" by (cases u)
  show ?case
    using Cons [of "emit (SetState p v) st"]
    by (cases "set_err en p") (simp_all add: u setState_def emit_def)
qed

lemma updateDeviceInfo_calls:
  "calls_of (trace (updateDeviceInfo en st)) = calls_of (trace st)"
proof -
  obtain r s where rs: "setStates en (devinfo_updates en) st = (r, s)"
    by (cases "setStates en (devinfo_updates en) st")
  have "calls_of (trace s) = calls_of (trace st)"
    using setStates_calls [of en "devinfo_updates en" st] rs by simp
  then show ?thesis
    by (cases r) (simp_all add: updateDeviceInfo_def rs emit_def calls_of_append)
qed

lemma connect_calls:
  "calls_of (trace (connect en st)) = calls_of (trace st) @ [M_connect]"
proof -
  let ?s1 = "updateDeviceInfo en (emit (Log L_connecting) (emit (Call M_connect) st))"
  have c1: "calls_of (trace ?s1) = calls_of (trace st) @ [M_connect]"
    by (simp add: updateDeviceInfo_calls emit_def calls_of_append)
  show ?thesis
    using c1
    by (cases "push_err en"; cases "set_err en ''info.connected''")
       (simp_all add: connect_def Let_def startPolling_def startArtworkPolling_def
          setState_def emit_def calls_of_append)
qed

lemma disconnect_calls:
  "calls_of (trace (snd (disconnect en st))) = calls_of (trace st) @ [M_disconnect]"
  by (simp add: disconnect_def Let_def setState_def emit_def calls_of_append)

lemma disconnect_outcome: "fst (disconnect en st) = set_err en ''info.connected''"
  by (simp add: disconnect_def Let_def setState_def)

lemma disconnect_fields:
  "reconnectTimer (snd (disconnect en st)) = None
   \<and> reconnectAttempts (snd (disconnect en st)) = reconnectAttempts st
   \<and> \<not> connected (snd (disconnect en st))
   \<and> \<not> pushHandle (snd (disconnect en st))
   \<and> pollTimer (snd (disconnect en st)) = None
   \<and> artworkTimer (snd (disconnect en st)) = None"
  by (simp add: disconnect_def Let_def setState_def emit_def)

lemma scheduleReconnect_calls:
  "calls_of (trace (scheduleReconnect st)) = calls_of (trace st) @ [M_scheduleReconnect]"
  by (simp add: scheduleReconnect_def Let_def emit_def calls_of_append)

lemma reconnect_delay_mono: "j \<le> k \<Longrightarrow> reconnect_delay j \<le> reconnect_delay k"
proof -
  assume "j \<le> k"
  then have "(2::nat) ^ j \<le> 2 ^ k" by (simp add: power_increasing)
  then have "RECONNECT_BASE_DELAY * 2 ^ j \<le> RECONNECT_BASE_DELAY * 2 ^ k" by simp
  then show ?thesis by (simp add: reconnect_delay_def min_le_iff_disj)
qed

lemma reconnect_delay_saturated: "6 \<le> k \<Longrightarrow> reconnect_delay k = RECONNECT_MAX_DELAY"
proof -
  assume "6 \<le> k"
  then have "(64::nat) \<le> 2 ^ k"
    using power_increasing [of 6 k "2::nat"] by simp
  then show ?thesis
    by (simp add: reconnect_delay_def RECONNECT_BASE_DELAY_def RECONNECT_MAX_DELAY_def)
qed

lemma reconnect_delay_below: "k < 6 \<Longrightarrow> reconnect_delay k = RECONNECT_BASE_DELAY * 2 ^ k"
proof -
  assume "k < 6"
  then have "(2::nat) ^ k \<le> 32"
    using power_increasing [of k 5 "2::nat"] by simp
  then show ?thesis
    by (simp add: reconnect_delay_def RECONNECT_BASE_DELAY_def RECONNECT_MAX_DELAY_def)
qed

lemma scheduleReconnect_pending:
  "reconnectTimer st \<noteq> None \<Longrightarrow> scheduleReconnect st = emit (Call M_scheduleReconnect) st"
  by (simp add: scheduleReconnect_def Let_def emit_def)

lemma scheduleReconnect_given_up:
  "reconnectTimer st = None \<Longrightarrow> MAX_RECONNECT_ATTEMPTS \<le> reconnectAttempts st \<Longrightarrow>
   scheduleReconnect st = emit (Log L_max_reconnect) (emit (Call M_scheduleReconnect) st)"
  by (simp add: scheduleReconnect_def Let_def emit_def)

lemma scheduleReconnect_schedules:
  "reconnectTimer st = None \<Longrightarrow> reconnectAttempts st < MAX_RECONNECT_ATTEMPTS \<Longrightarrow>
   scheduleReconnect st =
     st\<lparr>reconnectTimer := Some (reconnect_delay (reconnectAttempts st)),
        reconnectAttempts := reconnectAttempts st + 1,
        trace := trace st @ [Call M_scheduleReconnect,
          Log (L_reconnecting (reconnect_delay (reconnectAttempts st)) (reconnectAttempts st + 1))]\<rparr>"
  by (simp add: scheduleReconnect_def Let_def emit_def)

lemma reconnect_fire_ok_calls:
  assumes "reconnectTimer st \<noteq> None" and "set_err en ''info.connected'' = None"
  shows "calls_of (trace (reconnect_fire en st)) = calls_of (trace st) @ [M_disconnect, M_connect]"
proof -
  let ?d = "disconnect en (st\<lparr>reconnectTimer := None\<rparr>)"
  have f: "fst ?d = None" using assms(2) by (simp add: disconnect_outcome)
  have c: "calls_of (trace (snd ?d)) = calls_of (trace st) @ [M_disconnect]"
    using disconnect_calls [of en "st\<lparr>reconnectTimer := None\<rparr>"] by simp
  obtain b where d: "?d = (None, b)" using f by (cases ?d) simp
  have "reconnect_fire en st = reconnect_callback en st"
    by (simp add: reconnect_fire_def assms(1))
  then have "reconnect_fire en st = connect en (snd ?d)"
    by (simp add: reconnect_callback_def d)
  then show ?thesis by (simp add: connect_calls c)
qed

lemma reconnect_fire_failed:
  assumes "reconnectTimer st \<noteq> None" and "set_err en ''info.connected'' = Some e"
  shows "reconnect_fire en st =
     scheduleReconnect (emit (Log (L_reconnect_failed e)) (snd (disconnect en (st\<lparr>reconnectTimer := None\<rparr>))))"
proof -
  let ?d = "disconnect en (st\<lparr>reconnectTimer := None\<rparr>)"
  have f: "fst ?d = Some e" using assms(2) by (simp add: disconnect_outcome)
  obtain b where d: "?d = (Some e, b)" using f by (cases ?d) simp
  have "reconnect_fire en st = reconnect_callback en st"
    by (simp add: reconnect_fire_def assms(1))
  then show ?thesis
    by (simp add: reconnect_callback_def d)
qed

lemma reconnect_fire_failed_calls:
  assumes "reconnectTimer st \<noteq> None" and "set_err en ''info.connected'' \<noteq> None"
  shows "calls_of (trace (reconnect_fire en st)) =
           calls_of (trace st) @ [M_disconnect, M_scheduleReconnect]"
proof -
  obtain e where e: "set_err en ''info.connected'' = Some e" using assms(2) by auto
  have c: "calls_of (trace (snd (disconnect en (st\<lparr>reconnectTimer := None\<rparr>)))) =
             calls_of (trace st) @ [M_disconnect]"
    using disconnect_calls [of en "st\<lparr>reconnectTimer := None\<rparr>"] by simp
  show ?thesis
    by (simp add: reconnect_fire_failed [OF assms(1) e] scheduleReconnect_calls
          emit_def calls_of_append c)
qed

lemma reconnect_fire_failed_fields:
  assumes "reconnectTimer st \<noteq> None" and "set_err en ''info.connected'' \<noteq> None"
  shows "reconnectTimer (reconnect_fire en st) =
           (if reconnectAttempts st < MAX_RECONNECT_ATTEMPTS
            then Some (reconnect_delay (reconnectAttempts st)) else None)
       \<and> reconnectAttempts (reconnect_fire en st) =
           (if reconnectAttempts st < MAX_RECONNECT_ATTEMPTS
            then reconnectAttempts st + 1 else reconnectAttempts st)"
proof -
  obtain e where e: "set_err en ''info.connected'' = Some e" using assms(2) by auto
  let ?s = "emit (Log (L_reconnect_failed e)) (snd (disconnect en (st\<lparr>reconnectTimer := None\<rparr>)))"
  have t: "reconnectTimer ?s = None"
    using disconnect_fields [of en "st\<lparr>reconnectTimer := None\<rparr>"] by (simp add: emit_def)
  have a: "reconnectAttempts ?s = reconnectAttempts st"
    using disconnect_fields [of en "st\<lparr>reconnectTimer := None\<rparr>"] by (simp add: emit_def)
  have r: "reconnect_fire en st = scheduleReconnect ?s"
    by (rule reconnect_fire_failed [OF assms(1) e])
  show ?thesis
  proof (cases "reconnectAttempts st < MAX_RECONNECT_ATTEMPTS")
    case True
    then have lt: "reconnectAttempts ?s < MAX_RECONNECT_ATTEMPTS" using a by simp
    have g: "reconnectTimer (scheduleReconnect ?s) = Some (reconnect_delay (reconnectAttempts ?s))
             \<and> reconnectAttempts (scheduleReconnect ?s) = reconnectAttempts ?s + 1"
      by (simp add: scheduleReconnect_schedules [OF t lt])
    show ?thesis using g r a True by simp
  next
    case False
    then have ge: "MAX_RECONNECT_ATTEMPTS \<le> reconnectAttempts ?s" using a by simp
    have g: "reconnectTimer (scheduleReconnect ?s) = None
             \<and> reconnectAttempts (scheduleReconnect ?s) = reconnectAttempts ?s"
      unfolding scheduleReconnect_given_up [OF t ge] using t a by (simp add: emit_def)
    show ?thesis using g r a False by simp
  qed
qed

lemma backoff_sequence:
  assumes fail: "set_err en ''info.connected'' \<noteq> None"
    and t0: "reconnectTimer st = None" and a0: "reconnectAttempts st = 0"
  shows "reconnectTimer ((reconnect_fire en ^^ k) (scheduleReconnect st)) =
           (if k < MAX_RECONNECT_ATTEMPTS then Some (reconnect_delay k) else None)
       \<and> reconnectAttempts ((reconnect_fire en ^^ k) (scheduleReconnect st)) =
           min (Suc k) MAX_RECONNECT_ATTEMPTS"
proof (induction k)
  case 0
  have "reconnectAttempts st < MAX_RECONNECT_ATTEMPTS"
    by (simp add: a0 MAX_RECONNECT_ATTEMPTS_def)
  then show ?case
    using scheduleReconnect_schedules [OF t0] a0 by (simp add: MAX_RECONNECT_ATTEMPTS_def)
next
  case (Suc k)
  let ?s = "(reconnect_fire en ^^ k) (scheduleReconnect st)"
  show ?case
  proof (cases "k < MAX_RECONNECT_ATTEMPTS")
    case True
    then have p: "reconnectTimer ?s \<noteq> None" using Suc by simp
    have a: "reconnectAttempts ?s = Suc k" using Suc True by simp
    show ?thesis
      using reconnect_fire_failed_fields [OF p fail] a True
      by (auto simp: MAX_RECONNECT_ATTEMPTS_def)
  next
    case False
    then have "reconnectTimer ?s = None" using Suc by simp
    then have "reconnect_fire en ?s = ?s" by (simp add: reconnect_fire_def)
    then show ?thesis using Suc False by (simp add: MAX_RECONNECT_ATTEMPTS_def)
  qed
qed

text \<open>
  Claim C4. The reconnect scheduler does nothing when a reconnect timer is pending; with the
  timer free and ten or more attempts made it logs an error and sets no timer; otherwise it
  sets a timer of \<open>min (base * 2 ^ attempts) max\<close> milliseconds, counts the attempt and
  logs. When the timer expires its callback calls \<^verbatim>\<open>disconnect()\<close> and then
  \<^verbatim>\<open>connect()\<close> (and the scheduler again when \<^verbatim>\<open>disconnect()\<close> rejects). The delay
  never decreases with the attempt number, is \<open>base * 2 ^ k\<close> below attempt 6 and the
  maximum from there on; under consecutive failures the k-th timer has the k-th delay, and
  after the tenth no timer is set.
\<close>

theorem scheduleReconnect_backoff:
  "(reconnectTimer st \<noteq> None \<longrightarrow> scheduleReconnect st = emit (Call M_scheduleReconnect) st)
 \<and> (reconnectTimer st = None \<and> MAX_RECONNECT_ATTEMPTS \<le> reconnectAttempts st \<longrightarrow>
      scheduleReconnect st = emit (Log L_max_reconnect) (emit (Call M_scheduleReconnect) st))
 \<and> (reconnectTimer st = None \<and> reconnectAttempts st < MAX_RECONNECT_ATTEMPTS \<longrightarrow>
      scheduleReconnect st =
        st\<lparr>reconnectTimer :=
             Some (min (RECONNECT_BASE_DELAY * 2 ^ reconnectAttempts st) RECONNECT_MAX_DELAY),
           reconnectAttempts := reconnectAttempts st + 1,
           trace := trace st @ [Call M_scheduleReconnect,
             Log (L_reconnecting
                   (min (RECONNECT_BASE_DELAY * 2 ^ reconnectAttempts st) RECONNECT_MAX_DELAY)
                   (reconnectAttempts st + 1))]\<rparr>)
 \<and> (reconnectTimer st \<noteq> None \<and> set_err en ''info.connected'' = None \<longrightarrow>
      calls_of (trace (reconnect_fire en st)) = calls_of (trace st) @ [M_disconnect, M_connect])
 \<and> (reconnectTimer st \<noteq> None \<and> set_err en ''info.connected'' \<noteq> None \<longrightarrow>
      calls_of (trace (reconnect_fire en st)) =
        calls_of (trace st) @ [M_disconnect, M_scheduleReconnect])
 \<and> (\<forall>j k. j \<le> k \<longrightarrow> reconnect_delay j \<le> reconnect_delay k)
 \<and> (\<forall>k. reconnect_delay k =
        (if k < 6 then RECONNECT_BASE_DELAY * 2 ^ k else RECONNECT_MAX_DELAY))
 \<and> (reconnectTimer st = None \<and> reconnectAttempts st = 0
      \<and> set_err en ''info.connected'' \<noteq> None \<longrightarrow>
      (\<forall>k. reconnectTimer ((reconnect_fire en ^^ k) (scheduleReconnect st)) =
        (if k < MAX_RECONNECT_ATTEMPTS
         then Some (min (RECONNECT_BASE_DELAY * 2 ^ k) RECONNECT_MAX_DELAY) else None)))"
proof -
  have seq: "reconnectTimer st = None \<and> reconnectAttempts st = 0
      \<and> set_err en ''info.connected'' \<noteq> None \<longrightarrow>
      (\<forall>k. reconnectTimer ((reconnect_fire en ^^ k) (scheduleReconnect st)) =
        (if k < MAX_RECONNECT_ATTEMPTS
         then Some (min (RECONNECT_BASE_DELAY * 2 ^ k) RECONNECT_MAX_DELAY) else None))"
    using backoff_sequence [of en st] by (simp add: reconnect_delay_def)
  have sat: "\<forall>k. reconnect_delay k =
        (if k < 6 then RECONNECT_BASE_DELAY * 2 ^ k else RECONNECT_MAX_DELAY)"
    using reconnect_delay_below reconnect_delay_saturated by simp
  have sched: "reconnectTimer st = None \<and> reconnectAttempts st < MAX_RECONNECT_ATTEMPTS \<longrightarrow>
      scheduleReconnect st =
        st\<lparr>reconnectTimer :=
             Some (min (RECONNECT_BASE_DELAY * 2 ^ reconnectAttempts st) RECONNECT_MAX_DELAY),
           reconnectAttempts := reconnectAttempts st + 1,
           trace := trace st @ [Call M_scheduleReconnect,
             Log (L_reconnecting
                   (min (RECONNECT_BASE_DELAY * 2 ^ reconnectAttempts st) RECONNECT_MAX_DELAY)
                   (reconnectAttempts st + 1))]\<rparr>"
    using scheduleReconnect_schedules [of st] by (simp add: reconnect_delay_def)
  show ?thesis
    using seq sat sched scheduleReconnect_pending [of st] scheduleReconnect_given_up [of st]
      reconnect_fire_ok_calls [of st en] reconnect_fire_failed_calls [of st en]
      reconnect_delay_mono
    by blast
qed

text \<open>The scheduler and the timer callback at concrete states.\<close>

theorem scheduleReconnect_backoff_witness:
  "scheduleReconnect ((dm_init :: unit dm)\<lparr>reconnectTimer := Some 5000\<rparr>) =
     emit (Call M_scheduleReconnect) (dm_init\<lparr>reconnectTimer := Some 5000\<rparr>)
 \<and> scheduleReconnect ((dm_init :: unit dm)\<lparr>reconnectAttempts := 10\<rparr>) =
     emit (Log L_max_reconnect) (emit (Call M_scheduleReconnect) (dm_init\<lparr>reconnectAttempts := 10\<rparr>))
 \<and> reconnectTimer (scheduleReconnect ((dm_init :: unit dm)\<lparr>reconnectAttempts := 3\<rparr>)) = Some 40000
 \<and> reconnectAttempts (scheduleReconnect ((dm_init :: unit dm)\<lparr>reconnectAttempts := 3\<rparr>)) = 4
 \<and> calls_of (trace (reconnect_fire env_sink_up (dm_init\<lparr>reconnectTimer := Some 5000\<rparr>))) =
     [M_disconnect, M_connect]
 \<and> calls_of (trace (reconnect_fire env_sink_down (dm_init\<lparr>reconnectTimer := Some 5000\<rparr>))) =
     [M_disconnect, M_scheduleReconnect]
 \<and> reconnect_delay 3 \<le> reconnect_delay 7
 \<and> reconnect_delay 3 = 40000 \<and> reconnect_delay 7 = 300000
 \<and> reconnectTimer ((reconnect_fire env_sink_down ^^ 6) (scheduleReconnect dm_init)) = Some 300000
 \<and> reconnectTimer ((reconnect_fire env_sink_down ^^ 10) (scheduleReconnect dm_init)) = None"
proof -
  let ?pending = "(dm_init :: unit dm)\<lparr>reconnectTimer := Some 5000\<rparr>"
  let ?spent = "(dm_init :: unit dm)\<lparr>reconnectAttempts := 10\<rparr>"
  let ?third = "(dm_init :: unit dm)\<lparr>reconnectAttempts := 3\<rparr>"
  have p: "reconnectTimer ?pending \<noteq> None" by simp
  have n: "reconnectTimer (dm_init :: unit dm) = None \<and> reconnectAttempts (dm_init :: unit dm) = 0"
    by (simp add: dm_init_def)
  have up: "set_err env_sink_up ''info.connected'' = None" by (simp add: env_sink_up_def)
  have down: "set_err env_sink_down ''info.connected'' \<noteq> None" by (simp add: env_sink_down_def)
  have c: "calls_of (trace ?pending) = []" by (simp add: dm_init_def)
  have w1: "scheduleReconnect ?pending = emit (Call M_scheduleReconnect) ?pending"
    using scheduleReconnect_backoff [of ?pending env_sink_up] p by blast
  have s10: "reconnectTimer ?spent = None \<and> MAX_RECONNECT_ATTEMPTS \<le> reconnectAttempts ?spent"
    by (simp add: dm_init_def MAX_RECONNECT_ATTEMPTS_def)
  have w2: "scheduleReconnect ?spent =
      emit (Log L_max_reconnect) (emit (Call M_scheduleReconnect) ?spent)"
    using scheduleReconnect_backoff [of ?spent env_sink_up] s10 by blast
  have s3: "reconnectTimer ?third = None \<and> reconnectAttempts ?third < MAX_RECONNECT_ATTEMPTS"
    by (simp add: dm_init_def MAX_RECONNECT_ATTEMPTS_def)
  have "scheduleReconnect ?third =
        ?third\<lparr>reconnectTimer :=
             Some (min (RECONNECT_BASE_DELAY * 2 ^ reconnectAttempts ?third) RECONNECT_MAX_DELAY),
           reconnectAttempts := reconnectAttempts ?third + 1,
           trace := trace ?third @ [Call M_scheduleReconnect,
             Log (L_reconnecting
                   (min (RECONNECT_BASE_DELAY * 2 ^ reconnectAttempts ?third) RECONNECT_MAX_DELAY)
                   (reconnectAttempts ?third + 1))]\<rparr>"
    using scheduleReconnect_backoff [of ?third env_sink_up] s3 by blast
  then have w3: "reconnectTimer (scheduleReconnect ?third) = Some 40000
      \<and> reconnectAttempts (scheduleReconnect ?third) = 4"
    by (simp add: RECONNECT_BASE_DELAY_def RECONNECT_MAX_DELAY_def)
  have w4: "calls_of (trace (reconnect_fire env_sink_up ?pending)) = [M_disconnect, M_connect]"
    using scheduleReconnect_backoff [of ?pending env_sink_up] p up c by simp
  have w5: "calls_of (trace (reconnect_fire env_sink_down ?pending)) =
      [M_disconnect, M_scheduleReconnect]"
    using scheduleReconnect_backoff [of ?pending env_sink_down] p down c by simp
  have mono: "\<forall>j k. j \<le> k \<longrightarrow> reconnect_delay j \<le> reconnect_delay k"
    using scheduleReconnect_backoff [of ?pending env_sink_up] by blast
  have w6: "reconnect_delay 3 \<le> reconnect_delay 7" using mono by simp
  have sat: "\<forall>k. reconnect_delay k =
        (if k < 6 then RECONNECT_BASE_DELAY * 2 ^ k else RECONNECT_MAX_DELAY)"
    using scheduleReconnect_backoff [of ?pending env_sink_up] by blast
  have w7: "reconnect_delay 3 = 40000 \<and> reconnect_delay 7 = 300000"
    using sat by (simp add: RECONNECT_BASE_DELAY_def RECONNECT_MAX_DELAY_def)
  have seq: "\<forall>k. reconnectTimer ((reconnect_fire env_sink_down ^^ k)
        (scheduleReconnect (dm_init :: unit dm))) =
        (if k < MAX_RECONNECT_ATTEMPTS
         then Some (min (RECONNECT_BASE_DELAY * 2 ^ k) RECONNECT_MAX_DELAY) else None)"
    using scheduleReconnect_backoff [of "dm_init :: unit dm" env_sink_down] n down by blast
  have w8: "reconnectTimer ((reconnect_fire env_sink_down ^^ 6)
        (scheduleReconnect (dm_init :: unit dm))) = Some 300000"
    using spec [OF seq, of 6]
    by (simp add: MAX_RECONNECT_ATTEMPTS_def RECONNECT_BASE_DELAY_def RECONNECT_MAX_DELAY_def)
  have w9: "reconnectTimer ((reconnect_fire env_sink_down ^^ 10)
        (scheduleReconnect (dm_init :: unit dm))) = None"
    using spec [OF seq, of 10]
    by (simp add: MAX_RECONNECT_ATTEMPTS_def)
  show ?thesis
    using w1 w2 w3 w4 w5 w6 w7 w8 w9 by blast
qed

subsection \<open>Who calls the reconnect scheduler\<close>

lemma setState_calls: "calls_of (trace (snd (setState en p v st))) = calls_of (trace st)"
  by (simp add: setState_def emit_def calls_of_append)

lemma setState_frame:
  "reconnectTimer (snd (setState en p v st)) = reconnectTimer st
   \<and> connected (snd (setState en p v st)) = connected st"
  by (simp add: setState_def emit_def)

lemma poll_try_frame:
  "calls_of (trace (snd (poll_try en st))) = calls_of (trace st)
   \<and> reconnectTimer (snd (poll_try en st)) = reconnectTimer st"
proof (cases "get_playing en")
  case (Inl e)
  then show ?thesis by (simp add: poll_try_def)
next
  case (Inr d)
  obtain r1 s1 where u: "updatePlayingStates en d st = (r1, s1)"
    by (cases "updatePlayingStates en d st")
  have s1: "calls_of (trace s1) = calls_of (trace st) \<and> reconnectTimer s1 = reconnectTimer st"
    using setStates_calls [of en "playing_updates d" st]
      setStates_frame [of en "playing_updates d" st] u
    by (simp add: updatePlayingStates_def)
  show ?thesis
    using s1
    by (simp add: poll_try_def Inr u setState_def emit_def calls_of_append
          split: sum.splits option.splits)
qed

lemma poll_catch_frame:
  "calls_of (trace (poll_catch en e st)) = calls_of (trace st)
   \<and> reconnectTimer (poll_catch en e st) = reconnectTimer st
   \<and> \<not> connected (poll_catch en e st)"
  by (simp add: poll_catch_def Let_def setState_def emit_def calls_of_append)

lemma poll_tick_frame:
  "calls_of (trace (poll_tick en st)) = calls_of (trace st)
   \<and> reconnectTimer (poll_tick en st) = reconnectTimer st"
proof -
  obtain r s where p: "poll_try en st = (r, s)" by (cases "poll_try en st")
  have s: "calls_of (trace s) = calls_of (trace st) \<and> reconnectTimer s = reconnectTimer st"
    using poll_try_frame [of en st] p by simp
  show ?thesis
    using s by (cases r) (simp_all add: poll_tick_def p poll_catch_frame)
qed

lemma poll_tick_failed: "fst (poll_try en st) \<noteq> None \<Longrightarrow> \<not> connected (poll_tick en st)"
proof -
  assume f: "fst (poll_try en st) \<noteq> None"
  obtain r s where p: "poll_try en st = (r, s)" by (cases "poll_try en st")
  obtain e where "r = Some e" using f p by auto
  then show ?thesis by (simp add: poll_tick_def p poll_catch_frame)
qed

lemma handlePushEvent_calls:
  "calls_of (trace (handlePushEvent en ev st)) =
     calls_of (trace st) @
       (case ev of EvConnection c r \<Rightarrow> (if c then [] else [M_scheduleReconnect]) | _ \<Rightarrow> [])"
proof (cases ev)
  case (EvPlaying d)
  then show ?thesis
    by (simp add: handlePushEvent_def updatePlayingStates_def setStates_calls)
next
  case (EvPower b)
  then show ?thesis by (simp add: handlePushEvent_def setState_calls)
next
  case (EvVolume v)
  then show ?thesis by (simp add: handlePushEvent_def setState_calls)
next
  case (EvConnection c r)
  then show ?thesis
    by (simp add: handlePushEvent_def scheduleReconnect_calls setState_calls
          emit_def calls_of_append)
qed

lemma reconnect_fire_calls:
  "calls_of (trace (reconnect_fire en st)) =
     calls_of (trace st) @
       (if reconnectTimer st = None then []
        else if set_err en ''info.connected'' = None then [M_disconnect, M_connect]
        else [M_disconnect, M_scheduleReconnect])"
proof (cases "reconnectTimer st = None")
  case True
  then show ?thesis by (simp add: reconnect_fire_def)
next
  case False
  then show ?thesis
    using reconnect_fire_ok_calls [of st en] reconnect_fire_failed_calls [of st en]
    by (cases "set_err en ''info.connected'' = None") simp_all
qed

lemma dm_step_calls:
  "calls_of (trace (dm_step en op st)) =
     calls_of (trace st) @
       (case op of
          OpConnect \<Rightarrow> [M_connect]
        | OpDisconnect \<Rightarrow> [M_disconnect]
        | OpPushEvent ev \<Rightarrow>
            (case ev of EvConnection c r \<Rightarrow> (if c then [] else [M_scheduleReconnect]) | _ \<Rightarrow> [])
        | OpPollTick \<Rightarrow> []
        | OpReconnectTimer \<Rightarrow>
            (if reconnectTimer st = None then []
             else if set_err en ''info.connected'' = None then [M_disconnect, M_connect]
             else [M_disconnect, M_scheduleReconnect]))"
  by (cases op)
     (simp_all add: dm_step_def connect_calls disconnect_calls handlePushEvent_calls
        poll_tick_frame reconnect_fire_calls)

lemma invokes_scheduler_iff:
  "invokes_scheduler en op st \<longleftrightarrow>
     (\<exists>r. op = OpPushEvent (EvConnection False r))
     \<or> (op = OpReconnectTimer \<and> reconnectTimer st \<noteq> None
          \<and> set_err en ''info.connected'' \<noteq> None)"
proof -
  have "new_calls en op st =
       (case op of
          OpConnect \<Rightarrow> [M_connect]
        | OpDisconnect \<Rightarrow> [M_disconnect]
        | OpPushEvent ev \<Rightarrow>
            (case ev of EvConnection c r \<Rightarrow> (if c then [] else [M_scheduleReconnect]) | _ \<Rightarrow> [])
        | OpPollTick \<Rightarrow> []
        | OpReconnectTimer \<Rightarrow>
            (if reconnectTimer st = None then []
             else if set_err en ''info.connected'' = None then [M_disconnect, M_connect]
             else [M_disconnect, M_scheduleReconnect]))"
    by (simp add: new_calls_def dm_step_calls)
  then show ?thesis
    by (cases op) (auto simp: invokes_scheduler_def split: push_event.splits if_splits)
qed

text \<open>
  Claim C8, as amended. A poll tick whose try block throws leaves the device marked
  disconnected, and no poll tick, failed or not, enters the reconnect scheduler or touches
  the reconnect timer. Among the handlers of a connectivity session the scheduler is entered
  by exactly two: a push event of type \<^verbatim>\<open>connection\<close> with \<^verbatim>\<open>connected = false\<close>, and
  the callback of the reconnect timer when its \<^verbatim>\<open>disconnect()\<close> rejects.
\<close>

theorem reconnect_scheduler_callers:
  "(fst (poll_try en st) \<noteq> None \<longrightarrow> \<not> connected (poll_tick en st))
 \<and> \<not> invokes_scheduler en OpPollTick st
 \<and> reconnectTimer (poll_tick en st) = reconnectTimer st
 \<and> (invokes_scheduler en op st \<longleftrightarrow>
      (\<exists>r. op = OpPushEvent (EvConnection False r))
      \<or> (op = OpReconnectTimer \<and> reconnectTimer st \<noteq> None
           \<and> set_err en ''info.connected'' \<noteq> None))"
  using poll_tick_failed [of en st] poll_tick_frame [of en st]
    invokes_scheduler_iff [of en op st] invokes_scheduler_iff [of en OpPollTick st]
  by blast

text \<open>
  The scheduler entered with no push event at all: the reconnect timer expires while the
  state sink rejects every write.
\<close>

theorem reconnect_scheduler_other_caller:
  "invokes_scheduler env_sink_down (OpReconnectTimer :: unit dm_op)
     (dm_init\<lparr>reconnectTimer := Some 5000\<rparr>)"
  by (simp add: invokes_scheduler_def new_calls_def dm_step_def reconnect_fire_def
        reconnect_callback_def disconnect_def setState_def emit_def Let_def
        scheduleReconnect_def env_sink_down_def dm_init_def MAX_RECONNECT_ATTEMPTS_def)

text \<open>A failed poll tick and a connection-lost event at concrete states.\<close>

theorem reconnect_scheduler_callers_witness:
  "\<not> connected (poll_tick env_sink_down ((dm_init :: unit dm)\<lparr>pollTimer := Some 10000, connected := True\<rparr>))
 \<and> \<not> invokes_scheduler env_sink_down OpPollTick ((dm_init :: unit dm)\<lparr>pollTimer := Some 10000, connected := True\<rparr>)
 \<and> invokes_scheduler env_sink_down (OpPushEvent (EvConnection False ())) dm_init"
proof -
  let ?st = "(dm_init :: unit dm)\<lparr>pollTimer := Some 10000, connected := True\<rparr>"
  have f: "fst (poll_try env_sink_down ?st) \<noteq> None"
    by (simp add: poll_try_def env_sink_down_def)
  have a: "\<not> connected (poll_tick env_sink_down ?st)"
    using reconnect_scheduler_callers [of env_sink_down ?st OpPollTick] f by blast
  have b: "\<not> invokes_scheduler env_sink_down OpPollTick ?st"
    using reconnect_scheduler_callers [of env_sink_down ?st OpPollTick] by blast
  have c: "invokes_scheduler env_sink_down (OpPushEvent (EvConnection False ())) dm_init"
    using reconnect_scheduler_callers [of env_sink_down dm_init "OpPushEvent (EvConnection False ())"]
    by blast
  show ?thesis using a b c by blast
qed

subsection \<open>Credential extraction\<close>

lemma line_terminator_is_space: "is_line_terminator c \<Longrightarrow> is_space c"
  by (auto simp: is_line_terminator_def is_space_def)

lemma dot_plus_Some:
  "dot_plus s = Some g \<Longrightarrow>
     g \<noteq> [] \<and> g = takeWhile (\<lambda>c. \<not> is_line_terminator c) s"
  by (auto simp: dot_plus_def Let_def split: if_splits)

lemma dot_plus_decomp:
  assumes "dot_plus s = Some g"
  shows "\<exists>r. s = g @ r \<and> g \<noteq> [] \<and> list_all (\<lambda>c. \<not> is_line_terminator c) g
             \<and> (r = [] \<or> is_line_terminator (hd r))"
proof -
  let ?P = "\<lambda>c. \<not> is_line_terminator c"
  have g: "g \<noteq> [] \<and> g = takeWhile ?P s" using assms by (rule dot_plus_Some)
  have 1: "s = g @ dropWhile ?P s" using g by simp
  have 2: "list_all ?P g" using g by (simp add: list_all_iff) (metis set_takeWhileD)
  have 3: "dropWhile ?P s = [] \<or> is_line_terminator (hd (dropWhile ?P s))"
    using hd_dropWhile [of ?P s] by auto
  show ?thesis using 1 2 3 g by blast
qed

lemma dot_plus_start: "\<not> is_line_terminator c \<Longrightarrow> dot_plus (c # cs) \<noteq> None"
  by (simp add: dot_plus_def Let_def)

lemma ws_then_rest_decomp:
  "ws_then_rest s = Some g \<Longrightarrow>
     \<exists>w r. s = w @ g @ r \<and> list_all is_space w \<and> g \<noteq> []
           \<and> list_all (\<lambda>c. \<not> is_line_terminator c) g
           \<and> (r = [] \<or> is_line_terminator (hd r))"
proof (induction s)
  case Nil
  then show ?case by simp
next
  case (Cons c cs)
  show ?case
  proof (cases "is_space c \<and> ws_then_rest cs \<noteq> None")
    case True
    then have "ws_then_rest cs = Some g" using Cons.prems by auto
    then obtain w r where wr: "cs = w @ g @ r" "list_all is_space w" "g \<noteq> []"
        "list_all (\<lambda>c. \<not> is_line_terminator c) g" "r = [] \<or> is_line_terminator (hd r)"
      using Cons.IH by blast
    have "c # cs = (c # w) @ g @ r \<and> list_all is_space (c # w)" using wr True by simp
    then show ?thesis using wr by blast
  next
    case False
    then have "dot_plus (c # cs) = Some g" using Cons.prems by (auto split: if_splits)
    then obtain r where "c # cs = g @ r" "g \<noteq> []"
        "list_all (\<lambda>c. \<not> is_line_terminator c) g" "r = [] \<or> is_line_terminator (hd r)"
      using dot_plus_decomp by blast
    then have "c # cs = [] @ g @ r \<and> list_all is_space []" by simp
    then show ?thesis
      using \<open>g \<noteq> []\<close> \<open>list_all (\<lambda>c. \<not> is_line_terminator c) g\<close>
        \<open>r = [] \<or> is_line_terminator (hd r)\<close> by blast
  qed
qed

lemma ws_then_rest_succeeds: "\<not> list_all is_space s \<Longrightarrow> ws_then_rest s \<noteq> None"
proof (induction s)
  case Nil
  then show ?case by simp
next
  case (Cons c cs)
  show ?case
  proof (cases "is_space c")
    case True
    then have "ws_then_rest cs \<noteq> None" using Cons by simp
    then show ?thesis using True by auto
  next
    case False
    then have "\<not> is_line_terminator c" using line_terminator_is_space by blast
    then show ?thesis using False dot_plus_start by simp
  qed
qed

lemma ws_then_rest_group_start:
  "ws_then_rest s = Some g \<Longrightarrow> \<not> list_all is_space s \<Longrightarrow> g \<noteq> [] \<and> \<not> is_space (hd g)"
proof (induction s)
  case Nil
  then show ?case by simp
next
  case (Cons c cs)
  show ?case
  proof (cases "is_space c")
    case True
    then have ns: "\<not> list_all is_space cs" using Cons.prems by simp
    then have "ws_then_rest cs \<noteq> None" by (rule ws_then_rest_succeeds)
    then have "ws_then_rest cs = Some g" using Cons.prems True by auto
    then show ?thesis using Cons.IH ns by blast
  next
    case False
    then have nl: "\<not> is_line_terminator c" using line_terminator_is_space by blast
    have "dot_plus (c # cs) = Some g" using Cons.prems False by simp
    then have "g = takeWhile (\<lambda>c. \<not> is_line_terminator c) (c # cs)" using dot_plus_Some by blast
    then have "g = c # takeWhile (\<lambda>c. \<not> is_line_terminator c) cs" using nl by simp
    then show ?thesis using False by simp
  qed
qed

lemma ws_then_rest_exact:
  "list_all is_space w \<Longrightarrow> g \<noteq> [] \<Longrightarrow> \<not> is_space (hd g) \<Longrightarrow>
   list_all (\<lambda>c. \<not> is_line_terminator c) g \<Longrightarrow> ws_then_rest (w @ g) = Some g"
proof (induction w)
  case Nil
  then obtain c cs where g: "g = c # cs" by (cases g) auto
  have "takeWhile (\<lambda>c. \<not> is_line_terminator c) g = g"
    using Nil.prems(4) by (simp add: list_all_iff)
  then show ?case using Nil.prems g by (simp add: dot_plus_def Let_def)
next
  case (Cons c w)
  then show ?case by simp
qed

lemma match_here_decomp:
  assumes "match_here s = Some g"
  shows "\<exists>c sfx t. s = c # ''redential'' @ sfx @ '':'' @ t \<and> (c = CHR ''C'' \<or> c = CHR ''c'')
           \<and> (sfx = [] \<or> sfx = ''s'') \<and> ws_then_rest t = Some g"
proof -
  obtain c r where s: "s = c # r" using assms by (cases s) (auto simp: match_here_def)
  have c: "c = CHR ''C'' \<or> c = CHR ''c''" and t9: "take 9 r = ''redential''"
    using assms s by (auto simp: match_here_def split: if_splits)
  have r: "r = ''redential'' @ drop 9 r" using t9 append_take_drop_id [of 9 r] by simp
  let ?r1 = "drop 9 r"
  let ?with = "(case ?r1 of [] \<Rightarrow> None
                | x # r2 \<Rightarrow> if x = CHR ''s'' then colon_then_rest r2 else None)"
  have m: "(case ?with of Some g \<Rightarrow> Some g | None \<Rightarrow> colon_then_rest ?r1) = Some g"
    using assms s c t9 by (simp add: match_here_def Let_def)
  show ?thesis
  proof (cases ?with)
    case None
    then have "colon_then_rest ?r1 = Some g" using m by simp
    then obtain t where "?r1 = CHR '':'' # t" "ws_then_rest t = Some g"
      by (auto simp: colon_then_rest_def split: list.splits if_splits)
    then have "s = c # ''redential'' @ [] @ '':'' @ t" using s r by simp
    then show ?thesis using c \<open>ws_then_rest t = Some g\<close> by blast
  next
    case (Some g')
    then have "g' = g" using m by simp
    then obtain r2 where r2: "?r1 = CHR ''s'' # r2" "colon_then_rest r2 = Some g"
      using Some by (auto split: list.splits if_splits)
    then obtain t where "r2 = CHR '':'' # t" "ws_then_rest t = Some g"
      by (auto simp: colon_then_rest_def split: list.splits if_splits)
    then have "s = c # ''redential'' @ ''s'' @ '':'' @ t" using s r r2 by simp
    then show ?thesis using c \<open>ws_then_rest t = Some g\<close> by blast
  qed
qed

lemma regex_match_decomp:
  "regex_match l = Some g \<Longrightarrow> \<exists>a s. l = a @ s \<and> match_here s = Some g"
proof (induction l)
  case Nil
  then show ?case by simp
next
  case (Cons c cs)
  show ?case
  proof (cases "match_here (c # cs)")
    case None
    then have "regex_match cs = Some g" using Cons.prems by simp
    then obtain a s where "cs = a @ s" "match_here s = Some g" using Cons.IH by blast
    then have "c # cs = (c # a) @ s" by simp
    then show ?thesis using \<open>match_here s = Some g\<close> by blast
  next
    case (Some g')
    then have "match_here (c # cs) = Some g" using Cons.prems by simp
    then have "c # cs = [] @ (c # cs) \<and> match_here (c # cs) = Some g" by simp
    then show ?thesis by blast
  qed
qed

lemma regex_match_marker:
  assumes "regex_match l = Some g"
  shows "\<exists>a c sfx t. l = a @ c # ''redential'' @ sfx @ '':'' @ t
           \<and> (c = CHR ''C'' \<or> c = CHR ''c'') \<and> (sfx = [] \<or> sfx = ''s'')
           \<and> ws_then_rest t = Some g"
proof -
  obtain a s where as: "l = a @ s" "match_here s = Some g"
    using regex_match_decomp [OF assms] by (elim exE conjE)
  obtain c sfx t where m: "s = c # ''redential'' @ sfx @ '':'' @ t"
      "c = CHR ''C'' \<or> c = CHR ''c''" "sfx = [] \<or> sfx = ''s''" "ws_then_rest t = Some g"
    using match_here_decomp [OF as(2)] by (elim exE conjE)
  have "l = a @ c # ''redential'' @ sfx @ '':'' @ t" by (simp only: as(1) m(1))
  then show ?thesis using m(2,3,4) by (intro exI conjI)
qed

lemma regex_match_shape:
  assumes "regex_match l = Some g"
  shows "\<exists>a c sfx w r. l = a @ c # ''redential'' @ sfx @ '':'' @ w @ g @ r
           \<and> (c = CHR ''C'' \<or> c = CHR ''c'') \<and> (sfx = [] \<or> sfx = ''s'')
           \<and> list_all is_space w \<and> g \<noteq> []
           \<and> list_all (\<lambda>c. \<not> is_line_terminator c) g
           \<and> (r = [] \<or> is_line_terminator (hd r))"
proof -
  obtain a c sfx t where m: "l = a @ c # ''redential'' @ sfx @ '':'' @ t"
      "c = CHR ''C'' \<or> c = CHR ''c''" "sfx = [] \<or> sfx = ''s''" "ws_then_rest t = Some g"
    using regex_match_marker [OF assms] by (elim exE conjE)
  obtain w r where w: "t = w @ g @ r" "list_all is_space w" "g \<noteq> []"
      "list_all (\<lambda>c. \<not> is_line_terminator c) g" "r = [] \<or> is_line_terminator (hd r)"
    using ws_then_rest_decomp [OF m(4)] by (elim exE conjE)
  have "l = a @ c # ''redential'' @ sfx @ '':'' @ w @ g @ r" by (simp only: m(1) w(1))
  then show ?thesis using m(2,3) w(2-5) by (intro exI conjI)
qed

lemma last_after: "t \<noteq> [] \<Longrightarrow> last (a @ c # k @ sfx @ d @ t) = last t"
  by simp

lemma regex_match_group_start:
  assumes "regex_match l = Some g" and "l \<noteq> []" and "\<not> is_space (last l)"
  shows "g \<noteq> [] \<and> \<not> is_space (hd g)"
proof -
  obtain a c sfx t where m: "l = a @ c # ''redential'' @ sfx @ '':'' @ t"
      "ws_then_rest t = Some g"
    using regex_match_marker [OF assms(1)] by (elim exE conjE)
  have tn: "t \<noteq> []"
  proof
    assume "t = []"
    then have "ws_then_rest t = None" by simp
    then show False using m(2) by simp
  qed
  have "last l = last t" unfolding m(1) using tn by (rule last_after)
  then have "\<not> is_space (last t)" using assms(3) by simp
  then have "\<not> list_all is_space t" using tn last_in_set [of t] by (auto simp: list_all_iff)
  then show ?thesis using m(2) ws_then_rest_group_start by blast
qed

lemma dropWhile_rev_last: "xs \<noteq> [] \<Longrightarrow> \<not> P (last xs) \<Longrightarrow> dropWhile P (rev xs) = rev xs"
  by (cases xs rule: rev_cases) simp_all

lemma last_dropWhile: "dropWhile P xs \<noteq> [] \<Longrightarrow> last (dropWhile P xs) = last xs"
  by (induction xs) (auto split: if_splits)

lemma trim_ends:
  assumes "trim x \<noteq> []"
  shows "\<not> is_space (last (trim x)) \<and> \<not> is_space (hd (trim x))"
proof -
  let ?a = "dropWhile is_space x"
  let ?b = "dropWhile is_space (rev ?a)"
  have t: "trim x = rev ?b" by (simp add: trim_def)
  have bn: "?b \<noteq> []" using assms unfolding t by simp
  have 1: "\<not> is_space (hd ?b)" using bn by (rule hd_dropWhile)
  have l: "last (trim x) = hd ?b" unfolding t using bn by (simp only: last_rev)
  have ran: "rev ?a \<noteq> []"
  proof
    assume "rev ?a = []"
    then have "?b = []" by (simp only: dropWhile.simps)
    then show False using bn by simp
  qed
  then have an: "?a \<noteq> []" by (simp only: rev_is_Nil_conv not_False_eq_True)
  have ha: "\<not> is_space (hd ?a)" using an by (rule hd_dropWhile)
  have "last ?b = last (rev ?a)" using bn by (rule last_dropWhile)
  then have "last ?b = hd ?a" using an by (simp only: last_rev)
  moreover have "hd (trim x) = last ?b" unfolding t using bn by (simp only: hd_rev)
  ultimately show ?thesis using 1 l ha by simp
qed

lemma trim_nonempty: "g \<noteq> [] \<Longrightarrow> \<not> is_space (hd g) \<Longrightarrow> trim g \<noteq> []"
proof -
  assume g: "g \<noteq> []" and h: "\<not> is_space (hd g)"
  then obtain c cs where gc: "g = c # cs" "\<not> is_space c" by (cases g) simp_all
  have d: "dropWhile is_space g = g" using gc by simp
  have "dropWhile is_space (rev cs @ [c]) \<noteq> []"
    using gc(2) by (simp add: dropWhile_append)
  then show ?thesis unfolding trim_def d using gc(1) by simp
qed

lemma trim_fixed: "g \<noteq> [] \<Longrightarrow> \<not> is_space (hd g) \<Longrightarrow> \<not> is_space (last g) \<Longrightarrow> trim g = g"
proof -
  assume g: "g \<noteq> []" and h: "\<not> is_space (hd g)" and l: "\<not> is_space (last g)"
  have d: "dropWhile is_space g = g" using g h by (cases g) simp_all
  show ?thesis unfolding trim_def d using g l by (simp add: dropWhile_rev_last)
qed

lemma cred_lines_trimmed:
  "l \<in> set (cred_lines out) \<Longrightarrow> l \<noteq> [] \<and> \<not> is_space (last l) \<and> \<not> is_space (hd l)"
  using trim_ends by (auto simp: cred_lines_def)

lemma first_match_at:
  "\<forall>p\<in>set pre. regex_match p = None \<Longrightarrow> regex_match l = Some g \<Longrightarrow>
   first_match (pre @ l # post) = Some g"
  by (induction pre) simp_all

lemma first_match_None: "first_match ls = None \<longleftrightarrow> (\<forall>l\<in>set ls. regex_match l = None)"
  by (induction ls) (auto split: option.splits)

lemma first_match_Some: "first_match ls = Some g \<Longrightarrow> \<exists>l\<in>set ls. regex_match l = Some g"
  by (induction ls) (auto split: option.splits)

lemma find_rev_last:
  "P l \<Longrightarrow> \<forall>p\<in>set post. \<not> P p \<Longrightarrow> find P (rev (pre @ l # post)) = Some l"
proof (induction post rule: rev_induct)
  case Nil
  then show ?case by simp
next
  case (snoc x xs)
  then show ?case by simp
qed

lemma find_holds: "find P xs = Some x \<Longrightarrow> P x"
  by (induction xs) (auto split: if_splits)

lemma extractCredentials_nonempty:
  assumes "extractCredentials out = Some c"
  shows "c \<noteq> []"
proof (cases "first_match (cred_lines out)")
  case None
  then have "find looks_like_credentials (rev (cred_lines out)) = Some c"
    using assms by (simp add: extractCredentials_def Let_def)
  then have "looks_like_credentials c" by (rule find_holds)
  then show ?thesis by (simp add: looks_like_credentials_def)
next
  case (Some g)
  then have c: "c = trim g" using assms by (simp add: extractCredentials_def Let_def)
  obtain l where l: "l \<in> set (cred_lines out)" "regex_match l = Some g"
    using first_match_Some [OF Some] by (elim bexE)
  have t: "l \<noteq> [] \<and> \<not> is_space (last l)" using cred_lines_trimmed [OF l(1)] by simp
  have "g \<noteq> [] \<and> \<not> is_space (hd g)"
    using regex_match_group_start [OF l(2)] t by simp
  then show ?thesis using c trim_nonempty by simp
qed

lemma take_word: "take 9 (''redential'' @ x) = ''redential''"
  by simp

lemma drop_word: "drop 9 (''redential'' @ x) = x"
  by simp

lemma match_here_marker:
  assumes "c = CHR ''C'' \<or> c = CHR ''c''"
  shows "match_here (c # ''redential'' @ x) =
     (case (case x of [] \<Rightarrow> None
            | y # r2 \<Rightarrow> if y = CHR ''s'' then colon_then_rest r2 else None) of
        Some g \<Rightarrow> Some g
      | None \<Rightarrow> colon_then_rest x)"
  unfolding match_here_def list.case take_word drop_word Let_def
  using assms by (simp only: simp_thms if_True)

lemma marker_prefix_line:
  assumes c: "c = CHR ''C'' \<or> c = CHR ''c''" and sfx: "sfx = [] \<or> sfx = ''s''"
    and w: "list_all is_space w" and g: "g \<noteq> []" "\<not> is_space (hd g)"
      "list_all (\<lambda>c. \<not> is_line_terminator c) g"
  shows "regex_match (c # ''redential'' @ sfx @ '':'' @ w @ g) = Some g"
proof -
  have r: "ws_then_rest (w @ g) = Some g" using w g by (rule ws_then_rest_exact)
  have k: "colon_then_rest ('':'' @ w @ g) = Some g"
    using r by (simp add: colon_then_rest_def)
  have "match_here (c # ''redential'' @ sfx @ '':'' @ w @ g) = Some g"
  proof (cases "sfx = []")
    case True
    show ?thesis
      unfolding match_here_marker [OF c] True using k by (simp add: colon_then_rest_def)
  next
    case False
    then have s: "sfx = ''s''" using sfx by simp
    show ?thesis
      unfolding match_here_marker [OF c] s using k by simp
  qed
  then show ?thesis by simp
qed

lemma dot_plus_exact:
  assumes "g \<noteq> []" and "list_all (\<lambda>c. \<not> is_line_terminator c) g"
    and "r = [] \<or> is_line_terminator (hd r)"
  shows "dot_plus (g @ r) = Some g"
proof -
  have a: "\<forall>x\<in>set g. \<not> is_line_terminator x" using assms(2) by (simp add: list_all_iff)
  have "takeWhile (\<lambda>c. \<not> is_line_terminator c) r = []"
    using assms(3) by (cases r) auto
  then have "takeWhile (\<lambda>c. \<not> is_line_terminator c) (g @ r) = g"
    using a by (simp add: takeWhile_append2)
  then show ?thesis using assms(1) by (simp add: dot_plus_def Let_def)
qed

lemma ws_then_rest_group:
  "list_all is_space w \<Longrightarrow> g \<noteq> [] \<Longrightarrow> \<not> is_space (hd g) \<Longrightarrow>
   list_all (\<lambda>c. \<not> is_line_terminator c) g \<Longrightarrow> r = [] \<or> is_line_terminator (hd r) \<Longrightarrow>
   ws_then_rest (w @ g @ r) = Some g"
proof (induction w)
  case Nil
  obtain c cs where g: "g = c # cs" using Nil.prems(2) by (cases g) auto
  have d: "dot_plus (g @ r) = Some g" using Nil.prems(2,4,5) by (rule dot_plus_exact)
  have "\<not> is_space c" using Nil.prems(3) g by simp
  then have "ws_then_rest ((c # cs) @ r) = dot_plus ((c # cs) @ r)" by simp
  then show ?case using d g by simp
next
  case (Cons c w)
  then show ?case by simp
qed

lemma colon_then_rest_colon: "colon_then_rest (CHR '':'' # t) = ws_then_rest t"
  by (simp add: colon_then_rest_def)

lemma colon_then_rest_s: "colon_then_rest (CHR ''s'' # t) = None"
  by (simp add: colon_then_rest_def)

lemma match_here_rest:
  assumes c: "c = CHR ''C'' \<or> c = CHR ''c''" and sfx: "sfx = [] \<or> sfx = ''s''"
  shows "match_here (c # ''redential'' @ sfx @ '':'' @ t) = ws_then_rest t"
proof (cases "sfx = []")
  case True
  have "match_here (c # ''redential'' @ CHR '':'' # t) = ws_then_rest t"
    unfolding match_here_marker [OF c] list.case
    by (cases "ws_then_rest t") (simp_all add: colon_then_rest_colon)
  then show ?thesis unfolding True by simp
next
  case False
  then have s: "sfx = ''s''" using sfx by simp
  have "match_here (c # ''redential'' @ CHR ''s'' # CHR '':'' # t) = ws_then_rest t"
    unfolding match_here_marker [OF c] list.case
    by (cases "ws_then_rest t") (simp_all add: colon_then_rest_colon colon_then_rest_s)
  then show ?thesis unfolding s by simp
qed

lemma regex_match_leftmost:
  "\<forall>i<length a. match_here (drop i (a @ s)) = None \<Longrightarrow> match_here s = Some g \<Longrightarrow>
   regex_match (a @ s) = Some g"
proof (induction a)
  case Nil
  then show ?case by (cases s) simp_all
next
  case (Cons x a)
  have h: "match_here (x # a @ s) = None" using Cons.prems(1) by force
  have "\<forall>i<length a. match_here (drop i (a @ s)) = None"
  proof (intro allI impI)
    fix i assume "i < length a"
    then have "Suc i < length (x # a)" by simp
    then have "match_here (drop (Suc i) ((x # a) @ s)) = None" using Cons.prems(1) by blast
    then show "match_here (drop i (a @ s)) = None" by simp
  qed
  then have "regex_match (a @ s) = Some g" using Cons.IH Cons.prems(2) by blast
  then show ?case using h by simp
qed

lemma regex_match_decomp_leftmost:
  "regex_match l = Some g \<Longrightarrow>
   \<exists>a s. l = a @ s \<and> match_here s = Some g \<and> (\<forall>i<length a. match_here (drop i l) = None)"
proof (induction l)
  case Nil
  then show ?case by simp
next
  case (Cons c cs)
  show ?case
  proof (cases "match_here (c # cs)")
    case None
    then have "regex_match cs = Some g" using Cons.prems by simp
    then obtain a s where as: "cs = a @ s" "match_here s = Some g"
        "\<forall>i<length a. match_here (drop i cs) = None"
      using Cons.IH by blast
    have l: "\<forall>i<length (c # a). match_here (drop i (c # cs)) = None"
    proof (intro allI impI)
      fix i assume i: "i < length (c # a)"
      show "match_here (drop i (c # cs)) = None"
      proof (cases i)
        case 0
        then show ?thesis using None by simp
      next
        case (Suc j)
        then have "j < length a" using i by simp
        then show ?thesis using as(3) Suc by simp
      qed
    qed
    have "c # cs = (c # a) @ s" using as(1) by simp
    then show ?thesis using as(2) l by blast
  next
    case (Some g')
    then have m: "match_here (c # cs) = Some g" using Cons.prems by simp
    have "c # cs = [] @ (c # cs)" by simp
    moreover have "\<forall>i<length ([]::string). match_here (drop i (c # cs)) = None" by simp
    ultimately show ?thesis using m by blast
  qed
qed

lemma regex_match_None: "regex_match l = None \<longleftrightarrow> (\<forall>i. match_here (drop i l) = None)"
proof (induction l)
  case Nil
  show ?case by simp
next
  case (Cons c cs)
  show ?case
  proof
    assume n: "regex_match (c # cs) = None"
    then have h: "match_here (c # cs) = None" by (simp split: option.splits)
    then have "regex_match cs = None" using n by simp
    then have t: "\<forall>i. match_here (drop i cs) = None" using Cons.IH by simp
    show "\<forall>i. match_here (drop i (c # cs)) = None"
    proof
      fix i
      show "match_here (drop i (c # cs)) = None"
        using h t by (cases i) simp_all
    qed
  next
    assume a: "\<forall>i. match_here (drop i (c # cs)) = None"
    have h: "match_here (c # cs) = None" using a [THEN spec, of 0] by simp
    have "\<forall>i. match_here (drop i cs) = None"
    proof
      fix i
      show "match_here (drop i cs) = None" using a [THEN spec, of "Suc i"] by simp
    qed
    then have "regex_match cs = None" using Cons.IH by simp
    then show "regex_match (c # cs) = None" using h by simp
  qed
qed

lemma line_match_intro:
  assumes l: "l = a @ c # ''redential'' @ sfx @ '':'' @ w @ g @ r"
    and c: "c = CHR ''C'' \<or> c = CHR ''c''" and sfx: "sfx = [] \<or> sfx = ''s''"
    and w: "list_all is_space w" and g: "g \<noteq> []" "\<not> is_space (hd g)"
      "list_all (\<lambda>c. \<not> is_line_terminator c) g"
    and r: "r = [] \<or> is_line_terminator (hd r)"
    and left: "\<forall>i<length a. match_here (drop i l) = None"
  shows "regex_match l = Some g"
proof -
  have "ws_then_rest (w @ g @ r) = Some g" using w g r by (rule ws_then_rest_group)
  then have m: "match_here (c # ''redential'' @ sfx @ '':'' @ w @ g @ r) = Some g"
    by (simp only: match_here_rest [OF c sfx])
  have left': "\<forall>i<length a. match_here (drop i (a @ c # ''redential'' @ sfx @ '':'' @ w @ g @ r)) = None"
    using left unfolding l .
  show ?thesis unfolding l using left' m by (rule regex_match_leftmost)
qed

lemma line_match_elim:
  assumes m: "regex_match l = Some g" and n: "l \<noteq> []" and s: "\<not> is_space (last l)"
  shows "\<exists>a c sfx w r. l = a @ c # ''redential'' @ sfx @ '':'' @ w @ g @ r
           \<and> (c = CHR ''C'' \<or> c = CHR ''c'') \<and> (sfx = [] \<or> sfx = ''s'')
           \<and> list_all is_space w \<and> g \<noteq> [] \<and> \<not> is_space (hd g)
           \<and> list_all (\<lambda>c. \<not> is_line_terminator c) g
           \<and> (r = [] \<or> is_line_terminator (hd r))
           \<and> (\<forall>i<length a. match_here (drop i l) = None)"
proof -
  obtain a s where as: "l = a @ s" "match_here s = Some g"
      "\<forall>i<length a. match_here (drop i l) = None"
    using regex_match_decomp_leftmost [OF m] by (elim exE conjE)
  obtain c sfx t where d: "s = c # ''redential'' @ sfx @ '':'' @ t"
      "c = CHR ''C'' \<or> c = CHR ''c''" "sfx = [] \<or> sfx = ''s''" "ws_then_rest t = Some g"
    using match_here_decomp [OF as(2)] by (elim exE conjE)
  obtain w r where wr: "t = w @ g @ r" "list_all is_space w" "g \<noteq> []"
      "list_all (\<lambda>c. \<not> is_line_terminator c) g" "r = [] \<or> is_line_terminator (hd r)"
    using ws_then_rest_decomp [OF d(4)] by (elim exE conjE)
  have gs: "\<not> is_space (hd g)" using regex_match_group_start [OF m n s] by (rule conjunct2)
  have e: "l = a @ c # ''redential'' @ sfx @ '':'' @ w @ g @ r"
    by (simp only: as(1) d(1) wr(1))
  show ?thesis
    using e d(2,3) wr(2,3) gs wr(4,5) as(3) by (intro exI conjI)
qed

lemma line_match_iff:
  "l \<noteq> [] \<and> \<not> is_space (last l) \<longrightarrow>
     (regex_match l = Some g \<longleftrightarrow>
       (\<exists>a c sfx w r. l = a @ c # ''redential'' @ sfx @ '':'' @ w @ g @ r
           \<and> (c = CHR ''C'' \<or> c = CHR ''c'') \<and> (sfx = [] \<or> sfx = ''s'')
           \<and> list_all is_space w \<and> g \<noteq> [] \<and> \<not> is_space (hd g)
           \<and> list_all (\<lambda>c. \<not> is_line_terminator c) g
           \<and> (r = [] \<or> is_line_terminator (hd r))
           \<and> (\<forall>i<length a. match_here (drop i l) = None)))"
proof (intro impI, elim conjE, rule iffI)
  assume "l \<noteq> []" "\<not> is_space (last l)" "regex_match l = Some g"
  then show "\<exists>a c sfx w r. l = a @ c # ''redential'' @ sfx @ '':'' @ w @ g @ r
           \<and> (c = CHR ''C'' \<or> c = CHR ''c'') \<and> (sfx = [] \<or> sfx = ''s'')
           \<and> list_all is_space w \<and> g \<noteq> [] \<and> \<not> is_space (hd g)
           \<and> list_all (\<lambda>c. \<not> is_line_terminator c) g
           \<and> (r = [] \<or> is_line_terminator (hd r))
           \<and> (\<forall>i<length a. match_here (drop i l) = None)"
    using line_match_elim by (elim meta_allE meta_impE) assumption+
next
  assume "\<exists>a c sfx w r. l = a @ c # ''redential'' @ sfx @ '':'' @ w @ g @ r
           \<and> (c = CHR ''C'' \<or> c = CHR ''c'') \<and> (sfx = [] \<or> sfx = ''s'')
           \<and> list_all is_space w \<and> g \<noteq> [] \<and> \<not> is_space (hd g)
           \<and> list_all (\<lambda>c. \<not> is_line_terminator c) g
           \<and> (r = [] \<or> is_line_terminator (hd r))
           \<and> (\<forall>i<length a. match_here (drop i l) = None)"
  then show "regex_match l = Some g"
    by (elim exE conjE) (rule line_match_intro)
qed

lemma last_drop: "drop i l \<noteq> [] \<Longrightarrow> last (drop i l) = last l"
  by (metis append_take_drop_id last_appendR)

lemma last_after_marker: "t \<noteq> [] \<Longrightarrow> last (c # k @ sfx @ d @ t) = last t"
  by simp

lemma position_match_iff:
  "l \<noteq> [] \<and> \<not> is_space (last l) \<longrightarrow>
     (match_here (drop i l) \<noteq> None \<longleftrightarrow>
       (\<exists>c sfx t. drop i l = c # ''redential'' @ sfx @ '':'' @ t
           \<and> (c = CHR ''C'' \<or> c = CHR ''c'') \<and> (sfx = [] \<or> sfx = ''s'') \<and> t \<noteq> []))"
proof (intro impI, elim conjE, rule iffI)
  assume "match_here (drop i l) \<noteq> None"
  then obtain g where m: "match_here (drop i l) = Some g" by (cases "match_here (drop i l)") simp_all
  obtain c sfx t where d: "drop i l = c # ''redential'' @ sfx @ '':'' @ t"
      "c = CHR ''C'' \<or> c = CHR ''c''" "sfx = [] \<or> sfx = ''s''" "ws_then_rest t = Some g"
    using match_here_decomp [OF m] by (elim exE conjE)
  have tn: "t \<noteq> []"
  proof
    assume "t = []"
    then have "ws_then_rest t = None" by simp
    then show False using d(4) by simp
  qed
  show "\<exists>c sfx t. drop i l = c # ''redential'' @ sfx @ '':'' @ t
           \<and> (c = CHR ''C'' \<or> c = CHR ''c'') \<and> (sfx = [] \<or> sfx = ''s'') \<and> t \<noteq> []"
    using d(1,2,3) tn by (intro exI conjI)
next
  assume s: "\<not> is_space (last l)"
  assume "\<exists>c sfx t. drop i l = c # ''redential'' @ sfx @ '':'' @ t
           \<and> (c = CHR ''C'' \<or> c = CHR ''c'') \<and> (sfx = [] \<or> sfx = ''s'') \<and> t \<noteq> []"
  then obtain c sfx t where d: "drop i l = c # ''redential'' @ sfx @ '':'' @ t"
      "c = CHR ''C'' \<or> c = CHR ''c''" "sfx = [] \<or> sfx = ''s''" "t \<noteq> []"
    by (elim exE conjE)
  have dn: "drop i l \<noteq> []" unfolding d(1) by (rule list.distinct(2))
  have "last (drop i l) = last t" unfolding d(1) using d(4) by (rule last_after_marker)
  then have "last t = last l" using last_drop [OF dn] by simp
  then have "\<not> is_space (last t)" using s by simp
  then have "\<not> list_all is_space t" using d(4) last_in_set [of t] by (auto simp: list_all_iff)
  then have "ws_then_rest t \<noteq> None" by (rule ws_then_rest_succeeds)
  then have "match_here (c # ''redential'' @ sfx @ '':'' @ t) \<noteq> None"
    unfolding match_here_rest [OF d(2,3)] .
  then show "match_here (drop i l) \<noteq> None" unfolding d(1) .
qed

lemma scanned_lines_trimmed:
  "\<forall>l\<in>set (cred_lines out). l \<noteq> [] \<and> \<not> is_space (last l)"
  using cred_lines_trimmed by blast

lemma rule_first:
  "cred_lines out = pre @ l # post \<and> (\<forall>p\<in>set pre. regex_match p = None)
     \<and> regex_match l = Some g \<longrightarrow> extractCredentials out = Some (trim g)"
proof (intro impI, elim conjE)
  assume a: "cred_lines out = pre @ l # post" "\<forall>p\<in>set pre. regex_match p = None"
    "regex_match l = Some g"
  have "first_match (cred_lines out) = Some g"
    unfolding a(1) using a(2,3) by (rule first_match_at)
  then show "extractCredentials out = Some (trim g)"
    by (simp add: extractCredentials_def Let_def)
qed

lemma rule_second:
  "(\<forall>p\<in>set (cred_lines out). regex_match p = None) \<and> cred_lines out = pre @ l # post
     \<and> looks_like_credentials l \<and> (\<forall>p\<in>set post. \<not> looks_like_credentials p)
     \<longrightarrow> extractCredentials out = Some l"
proof (intro impI, elim conjE)
  assume a: "\<forall>p\<in>set (cred_lines out). regex_match p = None" "cred_lines out = pre @ l # post"
    "looks_like_credentials l" "\<forall>p\<in>set post. \<not> looks_like_credentials p"
  have n: "first_match (cred_lines out) = None" using a(1) by (simp only: first_match_None)
  have "find looks_like_credentials (rev (cred_lines out)) = Some l"
    unfolding a(2) using a(3,4) by (rule find_rev_last)
  then show "extractCredentials out = Some l"
    using n by (simp add: extractCredentials_def Let_def)
qed

lemma rule_third:
  "(\<forall>p\<in>set (cred_lines out). regex_match p = None \<and> \<not> looks_like_credentials p)
     \<longrightarrow> extractCredentials out = None"
proof
  assume a: "\<forall>p\<in>set (cred_lines out). regex_match p = None \<and> \<not> looks_like_credentials p"
  then have n: "first_match (cred_lines out) = None" by (simp add: first_match_None)
  have "find looks_like_credentials (rev (cred_lines out)) = None"
    using a by (simp add: find_None_iff)
  then show "extractCredentials out = None"
    using n by (simp add: extractCredentials_def Let_def)
qed

lemma sample_marker_line: "regex_match ''credentials: AB12:CD34'' = Some ''AB12:CD34''"
  by code_simp

lemma sample_trim: "trim ''AB12:CD34'' = ''AB12:CD34''"
  by code_simp

lemma sample_hex_line: "looks_like_credentials ''AA11BB22CC33DD44EE55FF66''"
  by code_simp

lemma rule_sample_first:
  "cred_lines out = pre @ ''credentials: AB12:CD34'' # post
     \<and> (\<forall>p\<in>set pre. regex_match p = None)
     \<longrightarrow> extractCredentials out = Some ''AB12:CD34''"
proof (intro impI, elim conjE)
  assume a: "cred_lines out = pre @ ''credentials: AB12:CD34'' # post"
    "\<forall>p\<in>set pre. regex_match p = None"
  have "first_match (cred_lines out) = Some ''AB12:CD34''"
    unfolding a(1) using a(2) sample_marker_line by (rule first_match_at)
  then have "extractCredentials out = Some (trim ''AB12:CD34'')"
    unfolding extractCredentials_def Let_def by (simp only: option.case)
  then show "extractCredentials out = Some ''AB12:CD34''"
    by (simp only: sample_trim)
qed

lemma rule_sample_last:
  "(\<forall>p\<in>set (cred_lines out). regex_match p = None) \<and> cred_lines out \<noteq> []
     \<and> last (cred_lines out) = ''AA11BB22CC33DD44EE55FF66''
     \<longrightarrow> extractCredentials out = Some ''AA11BB22CC33DD44EE55FF66''"
proof (intro impI, elim conjE)
  assume a: "\<forall>p\<in>set (cred_lines out). regex_match p = None" "cred_lines out \<noteq> []"
    "last (cred_lines out) = ''AA11BB22CC33DD44EE55FF66''"
  have n: "first_match (cred_lines out) = None" using a(1) by (simp only: first_match_None)
  have "cred_lines out = butlast (cred_lines out) @ [last (cred_lines out)]"
    using a(2) by simp
  then have d: "cred_lines out = butlast (cred_lines out) @ ''AA11BB22CC33DD44EE55FF66'' # []"
    by (simp only: a(3))
  have e: "\<forall>p\<in>set []. \<not> looks_like_credentials p" by simp
  have "find looks_like_credentials
          (rev (butlast (cred_lines out) @ ''AA11BB22CC33DD44EE55FF66'' # [])) =
        Some ''AA11BB22CC33DD44EE55FF66''"
    using sample_hex_line e by (rule find_rev_last)
  then have "find looks_like_credentials (rev (cred_lines out)) =
        Some ''AA11BB22CC33DD44EE55FF66''"
    using d by (simp only:)
  then show "extractCredentials out = Some ''AA11BB22CC33DD44EE55FF66''"
    unfolding extractCredentials_def Let_def n by (simp only: option.case)
qed

text \<open>
  Claim C1, as amended. The function scans the lines of the output, split at line feeds,
  trimmed, the empty ones dropped; such a line ends in a character that is not white space.
  (1) Top to bottom, it takes the first line the expression matches at some position. The
  expression matches at a position exactly when the marker stands there, \<^verbatim>\<open>credential\<close>
  with its first letter in either case and the others in lower case, an optional \<^verbatim>\<open>s\<close>
  and a colon, and the line goes on after the colon. In the line taken, the leftmost such
  position counts: the white space after its colon is skipped, and the result is the text
  from there up to the first line terminator (a carriage return inside the line) or the end
  of the line, trimmed. (2) With no line matched it returns, scanning bottom to top, the
  first line of only hexadecimal digits and colons that is longer than 20. (3) Otherwise it
  returns \<^verbatim>\<open>null\<close>. In particular an output whose first matched line is
  \<^verbatim>\<open>credentials: AB12:CD34\<close> yields \<^verbatim>\<open>AB12:CD34\<close>, and an output with no matched line
  whose last non-empty line is \<^verbatim>\<open>AA11BB22CC33DD44EE55FF66\<close> yields that line.
\<close>

theorem extractCredentials_rule:
  "(cred_lines out = pre @ l # post \<and> (\<forall>p\<in>set pre. regex_match p = None)
     \<and> regex_match l = Some g \<longrightarrow> extractCredentials out = Some (trim g))
 \<and> ((\<forall>p\<in>set (cred_lines out). regex_match p = None) \<and> cred_lines out = pre @ l # post
     \<and> looks_like_credentials l \<and> (\<forall>p\<in>set post. \<not> looks_like_credentials p)
     \<longrightarrow> extractCredentials out = Some l)
 \<and> ((\<forall>p\<in>set (cred_lines out). regex_match p = None \<and> \<not> looks_like_credentials p)
     \<longrightarrow> extractCredentials out = None)
 \<and> (\<forall>p\<in>set (cred_lines out). p \<noteq> [] \<and> \<not> is_space (last p))
 \<and> (ln \<noteq> [] \<and> \<not> is_space (last ln) \<longrightarrow>
     (regex_match ln = Some grp \<longleftrightarrow>
       (\<exists>a c sfx w r. ln = a @ c # ''redential'' @ sfx @ '':'' @ w @ grp @ r
           \<and> (c = CHR ''C'' \<or> c = CHR ''c'') \<and> (sfx = [] \<or> sfx = ''s'')
           \<and> list_all is_space w \<and> grp \<noteq> [] \<and> \<not> is_space (hd grp)
           \<and> list_all (\<lambda>c. \<not> is_line_terminator c) grp
           \<and> (r = [] \<or> is_line_terminator (hd r))
           \<and> (\<forall>i<length a. match_here (drop i ln) = None))))
 \<and> (ln \<noteq> [] \<and> \<not> is_space (last ln) \<longrightarrow>
     (match_here (drop i ln) \<noteq> None \<longleftrightarrow>
       (\<exists>c sfx t. drop i ln = c # ''redential'' @ sfx @ '':'' @ t
           \<and> (c = CHR ''C'' \<or> c = CHR ''c'') \<and> (sfx = [] \<or> sfx = ''s'') \<and> t \<noteq> [])))
 \<and> (regex_match ln = None \<longleftrightarrow> (\<forall>i. match_here (drop i ln) = None))
 \<and> (cred_lines out = pre @ ''credentials: AB12:CD34'' # post
     \<and> (\<forall>p\<in>set pre. regex_match p = None)
     \<longrightarrow> extractCredentials out = Some ''AB12:CD34'')
 \<and> ((\<forall>p\<in>set (cred_lines out). regex_match p = None) \<and> cred_lines out \<noteq> []
     \<and> last (cred_lines out) = ''AA11BB22CC33DD44EE55FF66''
     \<longrightarrow> extractCredentials out = Some ''AA11BB22CC33DD44EE55FF66'')"
  by (intro conjI rule_first rule_second rule_third scanned_lines_trimmed line_match_iff
        position_match_iff regex_match_None rule_sample_first rule_sample_last)

text \<open>
  The marker is not case-insensitive: a line with the prefix in upper case is not taken, and
  the output yields \<^verbatim>\<open>null\<close>.
\<close>

theorem extractCredentials_upper_case: "extractCredentials ''CREDENTIALS: AB12:CD34'' = None"
  by code_simp

text \<open>
  The three rules on sample outputs of the pairing tool; a marker in mid-line followed by a
  carriage return; a line in upper case, which the expression matches nowhere.
\<close>

theorem extractCredentials_rule_witness:
  "extractCredentials ''Enter PIN: \<newline>credentials: AB12:CD34\<newline>'' = Some (trim ''AB12:CD34'')
 \<and> extractCredentials ''Enter PIN: \<newline>credentials: AB12:CD34\<newline>'' = Some ''AB12:CD34''
 \<and> \<not> is_space (last ''credentials: AB12:CD34'')
 \<and> regex_match (''my credentials: ab'' @ CHR 0x0D # ''cd'') = Some ''ab''
 \<and> extractCredentials (''my credentials: ab'' @ CHR 0x0D # ''cd'') = Some (trim ''ab'')
 \<and> match_here (drop 3 (''my credentials: ab'' @ CHR 0x0D # ''cd'')) \<noteq> None
 \<and> (\<forall>i. match_here (drop i ''CREDENTIALS: AB12:CD34'') = None)
 \<and> extractCredentials ''done\<newline>  AA11BB22CC33DD44EE55FF66  \<newline>\<newline>'' = Some ''AA11BB22CC33DD44EE55FF66''
 \<and> extractCredentials ''x\<newline>AA11BB22CC33DD44EE55FF66\<newline>zz'' = Some ''AA11BB22CC33DD44EE55FF66''
 \<and> extractCredentials ''Pairing failed'' = None"
proof -
  let ?out1 = "''Enter PIN: \<newline>credentials: AB12:CD34\<newline>''"
  let ?out2 = "''done\<newline>  AA11BB22CC33DD44EE55FF66  \<newline>\<newline>''"
  let ?out3 = "''Pairing failed''"
  let ?out4 = "''x\<newline>AA11BB22CC33DD44EE55FF66\<newline>zz''"
  let ?cr = "''my credentials: ab'' @ CHR 0x0D # ''cd''"
  note A = extractCredentials_rule [where out = ?out1 and pre = "[''Enter PIN:'']"
      and l = "''credentials: AB12:CD34''" and post = "[]" and g = "''AB12:CD34''"
      and ln = ?cr and grp = "''ab''" and i = 3]
  note B = extractCredentials_rule [where out = ?out2 and pre = "[''done'']"
      and l = "''AA11BB22CC33DD44EE55FF66''" and post = "[]" and g = "''AB12:CD34''"
      and ln = "''CREDENTIALS: AB12:CD34''" and grp = "''ab''" and i = 3]
  note C = extractCredentials_rule [where out = ?out3 and pre = "[]"
      and l = "''credentials: AB12:CD34''" and post = "[]" and g = "''AB12:CD34''"
      and ln = ?cr and grp = "''ab''" and i = 3]
  note D = extractCredentials_rule [where out = ?out4 and pre = "[''x'']"
      and l = "''AA11BB22CC33DD44EE55FF66''" and post = "[''zz'']" and g = "''AB12:CD34''"
      and ln = ?cr and grp = "''ab''" and i = 3]
  note E = extractCredentials_rule [where out = ?cr and pre = "[]"
      and l = ?cr and post = "[]" and g = "''ab''"
      and ln = ?cr and grp = "''ab''" and i = 3]
  have a1: "cred_lines ?out1 = [''Enter PIN:''] @ ''credentials: AB12:CD34'' # []"
    by code_simp
  have a2: "\<forall>p\<in>set [''Enter PIN:'']. regex_match p = None" by code_simp
  have a3: "regex_match ''credentials: AB12:CD34'' = Some ''AB12:CD34''" by code_simp
  have w1: "extractCredentials ?out1 = Some (trim ''AB12:CD34'')"
    by (rule A [THEN conjunct1, THEN mp]) (intro conjI a1 a2 a3)
  have w2: "extractCredentials ?out1 = Some ''AB12:CD34''"
    by (rule A [THEN conjunct2, THEN conjunct2, THEN conjunct2, THEN conjunct2,
          THEN conjunct2, THEN conjunct2, THEN conjunct2, THEN conjunct1, THEN mp])
       (intro conjI a1 a2)
  have g1: "''credentials: AB12:CD34'' \<in> set (cred_lines ?out1)" by code_simp
  have w3: "\<not> is_space (last ''credentials: AB12:CD34'')"
    using A [THEN conjunct2, THEN conjunct2, THEN conjunct2, THEN conjunct1, THEN bspec, OF g1]
    by (rule conjunct2)
  have t1: "?cr \<noteq> [] \<and> \<not> is_space (last ?cr)" by code_simp
  have s1: "?cr = ''my '' @ CHR ''c'' # ''redential'' @ ''s'' @ '':'' @ '' '' @ ''ab'' @ (CHR 0x0D # ''cd'')"
    by simp
  have s2: "CHR ''c'' = CHR ''C'' \<or> CHR ''c'' = CHR ''c''" by simp
  have s3: "''s'' = [] \<or> ''s'' = ''s''" by simp
  have s4: "list_all is_space '' ''" by code_simp
  have s5: "''ab'' \<noteq> []" by simp
  have s6: "\<not> is_space (hd ''ab'')" by code_simp
  have s7: "list_all (\<lambda>c. \<not> is_line_terminator c) ''ab''" by code_simp
  have s8: "CHR 0x0D # ''cd'' = [] \<or> is_line_terminator (hd (CHR 0x0D # ''cd''))" by code_simp
  have p0: "match_here (drop 0 ?cr) = None" by code_simp
  have p1: "match_here (drop 1 ?cr) = None" by code_simp
  have p2: "match_here (drop 2 ?cr) = None" by code_simp
  have s9: "\<forall>i<length ''my ''. match_here (drop i ?cr) = None"
  proof (intro allI impI)
    fix i :: nat assume "i < length ''my ''"
    then have "i = 0 \<or> i = 1 \<or> i = 2" by auto
    then show "match_here (drop i ?cr) = None" using p0 p1 p2 by (elim disjE) simp_all
  qed
  have shape: "\<exists>a c sfx w r. ?cr = a @ c # ''redential'' @ sfx @ '':'' @ w @ ''ab'' @ r
           \<and> (c = CHR ''C'' \<or> c = CHR ''c'') \<and> (sfx = [] \<or> sfx = ''s'')
           \<and> list_all is_space w \<and> ''ab'' \<noteq> [] \<and> \<not> is_space (hd ''ab'')
           \<and> list_all (\<lambda>c. \<not> is_line_terminator c) ''ab''
           \<and> (r = [] \<or> is_line_terminator (hd r))
           \<and> (\<forall>i<length a. match_here (drop i ?cr) = None)"
    using s1 s2 s3 s4 s5 s6 s7 s8 s9 by (intro exI conjI)
  have w4: "regex_match ?cr = Some ''ab''"
    using A [THEN conjunct2, THEN conjunct2, THEN conjunct2, THEN conjunct2, THEN conjunct1,
        THEN mp, OF t1, THEN iffD2, OF shape] .
  have e1: "cred_lines ?cr = [] @ ?cr # []" by code_simp
  have e2: "\<forall>p\<in>set ([] :: string list). regex_match p = None" by simp
  have w5: "extractCredentials ?cr = Some (trim ''ab'')"
    by (rule E [THEN conjunct1, THEN mp]) (intro conjI e1 e2 w4)
  have q1: "\<exists>c sfx t. drop 3 ?cr = c # ''redential'' @ sfx @ '':'' @ t
           \<and> (c = CHR ''C'' \<or> c = CHR ''c'') \<and> (sfx = [] \<or> sfx = ''s'') \<and> t \<noteq> []"
  proof -
    have d: "drop 3 ?cr = CHR ''c'' # ''redential'' @ ''s'' @ '':'' @ ('' ab'' @ CHR 0x0D # ''cd'')"
      by simp
    have n: "'' ab'' @ CHR 0x0D # ''cd'' \<noteq> []" by simp
    show ?thesis using d s2 s3 n by (intro exI conjI)
  qed
  have w6: "match_here (drop 3 ?cr) \<noteq> None"
    using A [THEN conjunct2, THEN conjunct2, THEN conjunct2, THEN conjunct2, THEN conjunct2,
        THEN conjunct1, THEN mp, OF t1, THEN iffD2, OF q1] .
  have u1: "regex_match ''CREDENTIALS: AB12:CD34'' = None" by code_simp
  have w7: "\<forall>i. match_here (drop i ''CREDENTIALS: AB12:CD34'') = None"
    using B [THEN conjunct2, THEN conjunct2, THEN conjunct2, THEN conjunct2, THEN conjunct2,
        THEN conjunct2, THEN conjunct1, THEN iffD1, OF u1] .
  have b1: "\<forall>p\<in>set (cred_lines ?out2). regex_match p = None" by code_simp
  have b2: "cred_lines ?out2 \<noteq> []" by code_simp
  have b3: "last (cred_lines ?out2) = ''AA11BB22CC33DD44EE55FF66''" by code_simp
  have w8: "extractCredentials ?out2 = Some ''AA11BB22CC33DD44EE55FF66''"
    by (rule B [THEN conjunct2, THEN conjunct2, THEN conjunct2, THEN conjunct2,
          THEN conjunct2, THEN conjunct2, THEN conjunct2, THEN conjunct2, THEN mp])
       (intro conjI b1 b2 b3)
  have d1: "\<forall>p\<in>set (cred_lines ?out4). regex_match p = None" by code_simp
  have d2: "cred_lines ?out4 = [''x''] @ ''AA11BB22CC33DD44EE55FF66'' # [''zz'']" by code_simp
  have d3: "looks_like_credentials ''AA11BB22CC33DD44EE55FF66''" by code_simp
  have d4: "\<forall>p\<in>set [''zz'']. \<not> looks_like_credentials p" by code_simp
  have w9: "extractCredentials ?out4 = Some ''AA11BB22CC33DD44EE55FF66''"
    by (rule D [THEN conjunct2, THEN conjunct1, THEN mp]) (intro conjI d1 d2 d3 d4)
  have c1: "\<forall>p\<in>set (cred_lines ?out3). regex_match p = None \<and> \<not> looks_like_credentials p"
    by code_simp
  have w10: "extractCredentials ?out3 = None"
    by (rule C [THEN conjunct2, THEN conjunct2, THEN conjunct1, THEN mp]) (rule c1)
  show ?thesis by (intro conjI w1 w2 w3 w4 w5 w6 w7 w8 w9 w10)
qed

subsection \<open>The push-update line parser\<close>

lemma split_nl_nonempty: "split_nl s \<noteq> []"
  by (induction s) (auto split: list.splits)

lemma split_nl_line: "CHR 0x0A \<notin> set l \<Longrightarrow> split_nl (l @ CHR 0x0A # rest) = l # split_nl rest"
  by (induction l) auto

lemma split_nl_plain: "CHR 0x0A \<notin> set l \<Longrightarrow> split_nl l = [l]"
  by (induction l) auto

lemma split_nl_lines:
  "\<forall>l\<in>set ls. CHR 0x0A \<notin> set l \<Longrightarrow>
   split_nl (concat (map (\<lambda>l. l @ [CHR 0x0A]) ls)) = ls @ [[]]"
proof (induction ls)
  case Nil
  show ?case by simp
next
  case (Cons l ls)
  have "split_nl (l @ CHR 0x0A # concat (map (\<lambda>l. l @ [CHR 0x0A]) ls)) =
        l # split_nl (concat (map (\<lambda>l. l @ [CHR 0x0A]) ls))"
    using Cons.prems by (simp add: split_nl_line)
  then show ?case using Cons by simp
qed

lemma split_nl_append:
  "butlast (split_nl (a @ b)) =
     butlast (split_nl a) @ butlast (split_nl (last (split_nl a) @ b))
   \<and> last (split_nl (a @ b)) = last (split_nl (last (split_nl a) @ b))"
proof (induction a)
  case Nil
  show ?case by simp
next
  case (Cons c a)
  note IH = Cons.IH
  obtain l ls where s: "split_nl a = l # ls"
    using split_nl_nonempty [of a] by (cases "split_nl a") auto
  obtain m ms where t: "split_nl (a @ b) = m # ms"
    using split_nl_nonempty [of "a @ b"] by (cases "split_nl (a @ b)") auto
  show ?case
  proof (cases "c = CHR 0x0A")
    case True
    then show ?thesis using IH s t split_nl_nonempty [of "a @ b"] by simp
  next
    case False
    show ?thesis
    proof (cases ls)
      case Nil
      then have la: "last (split_nl a) = l" using s by simp
      obtain k ks where u: "split_nl (l @ b) = k # ks"
        using split_nl_nonempty [of "l @ b"] by (cases "split_nl (l @ b)") auto
      have ih: "butlast (m # ms) = butlast (k # ks) \<and> last (m # ms) = last (k # ks)"
        using IH s t u Nil by simp
      then have mk: "m = k \<and> ms = ks"
        by (metis append_butlast_last_id list.distinct(1) list.inject)
      show ?thesis using False s t u Nil mk by simp
    next
      case (Cons x xs)
      then have "butlast (split_nl a) = l # butlast ls \<and> last (split_nl (c # a)) = last (split_nl a)"
        using s False by simp
      moreover have "butlast (split_nl (a @ b)) \<noteq> []"
        using IH s Cons by simp
      ultimately show ?thesis
        using IH False s t Cons by (cases ms) auto
    qed
  qed
qed


lemma foldl_on_line:
  "events (foldl (on_line parse) st ls) =
     events st @ concat (map (\<lambda>l. fst (handle_line parse l)) ls)
   \<and> plog (foldl (on_line parse) st ls) =
     plog st @ concat (map (\<lambda>l. snd (handle_line parse l)) ls)
   \<and> buffer (foldl (on_line parse) st ls) = buffer st"
proof (induction ls arbitrary: st)
  case Nil
  show ?case by simp
next
  case (Cons l ls)
  obtain evs logs where h: "handle_line parse l = (evs, logs)"
    by (cases "handle_line parse l")
  show ?case
    using Cons [of "on_line parse st l"] by (simp add: on_line_def h)
qed

lemma on_stdout_effect:
  "events (on_stdout parse st chunk) =
     events st @ concat (map (\<lambda>l. fst (handle_line parse l)) (butlast (split_nl (buffer st @ chunk))))
   \<and> plog (on_stdout parse st chunk) =
     plog st @ concat (map (\<lambda>l. snd (handle_line parse l)) (butlast (split_nl (buffer st @ chunk))))
   \<and> buffer (on_stdout parse st chunk) = last (split_nl (buffer st @ chunk))"
  by (simp add: on_stdout_def Let_def foldl_on_line)

lemma last_split_nl: "CHR 0x0A \<notin> set (last (split_nl s))"
proof (induction s)
  case Nil
  show ?case by simp
next
  case (Cons c s)
  obtain l ls where s: "split_nl s = l # ls"
    using split_nl_nonempty [of s] by (cases "split_nl s") auto
  show ?case using Cons s by (cases ls) auto
qed

lemma feed_chunks:
  assumes "CHR 0x0A \<notin> set (buffer st)"
  shows "events (foldl (on_stdout parse) st cs) =
     events st @ concat (map (\<lambda>l. fst (handle_line parse l))
                          (butlast (split_nl (buffer st @ concat cs))))
   \<and> plog (foldl (on_stdout parse) st cs) =
     plog st @ concat (map (\<lambda>l. snd (handle_line parse l))
                        (butlast (split_nl (buffer st @ concat cs))))
   \<and> buffer (foldl (on_stdout parse) st cs) = last (split_nl (buffer st @ concat cs))"
  using assms
proof (induction cs arbitrary: st)
  case Nil
  then show ?case by (simp add: split_nl_plain)
next
  case (Cons c cs)
  let ?st = "on_stdout parse st c"
  have b: "CHR 0x0A \<notin> set (buffer ?st)"
    by (simp add: on_stdout_effect last_split_nl)
  have sp: "butlast (split_nl ((buffer st @ c) @ concat cs)) =
      butlast (split_nl (buffer st @ c)) @ butlast (split_nl (buffer ?st @ concat cs))
    \<and> last (split_nl ((buffer st @ c) @ concat cs)) = last (split_nl (buffer ?st @ concat cs))"
    using split_nl_append [of "buffer st @ c" "concat cs"] by (simp add: on_stdout_effect)
  show ?case
    using Cons.IH [OF b] sp by (simp add: on_stdout_effect)
qed

lemma handle_line_malformed:
  "trim line \<noteq> [] \<Longrightarrow> parse line = None \<Longrightarrow>
   handle_line parse line = ([], [PL_parse_failed line])"
  by (simp add: handle_line_def)

lemma handle_line_success:
  "trim line \<noteq> [] \<Longrightarrow> parse line = Some (JObj kvs) \<Longrightarrow>
   map_of kvs ''result'' = Some (JStr ''success'') \<Longrightarrow>
   fst (handle_line parse line) = fst (processPushEvent (JObj kvs))"
proof -
  assume a: "trim line \<noteq> []" "parse line = Some (JObj kvs)"
    "map_of kvs ''result'' = Some (JStr ''success'')"
  obtain evs t where p: "processPushEvent (JObj kvs) = (evs, t)"
    by (cases "processPushEvent (JObj kvs)")
  show ?thesis using a by (cases t) (simp_all add: handle_line_def p)
qed

lemma feed_lines:
  assumes "\<forall>l\<in>set ls. CHR 0x0A \<notin> set l"
    and "concat cs = concat (map (\<lambda>l. l @ [CHR 0x0A]) ls)"
  shows "events (foldl (on_stdout parse) push_init cs) =
           concat (map (\<lambda>l. fst (handle_line parse l)) ls)
       \<and> plog (foldl (on_stdout parse) push_init cs) =
           concat (map (\<lambda>l. snd (handle_line parse l)) ls)
       \<and> buffer (foldl (on_stdout parse) push_init cs) = []"
proof -
  have i: "CHR 0x0A \<notin> set (buffer (push_init :: 'a push))" by (simp add: push_init_def)
  have s: "split_nl (buffer (push_init :: 'a push) @ concat cs) = ls @ [[]]"
    using split_nl_lines [OF assms(1)] assms(2) by (simp add: push_init_def)
  show ?thesis
    using feed_chunks [OF i, of parse cs] unfolding s by (simp add: push_init_def)
qed

text \<open>
  Claim C7. Whatever the chunks are in which stdout arrives, the handler processes exactly
  the complete lines of the text received so far, in their order, and keeps what follows the
  last line feed in the buffer; the events and log lines are those of the lines, one after
  the other. A non-blank line that does not parse produces no event and one debug line, and
  the lines after it are processed like any other. A line that parses to an object with
  \<^verbatim>\<open>result === 'success'\<close> produces the events of \<^verbatim>\<open>_processPushEvent\<close>. So for lines
  \<open>ls\<close> sent each with its line feed, in any chunking, the events are those of the first
  line, then those of the second, and so on.
\<close>

theorem push_parser_lines:
  "(CHR 0x0A \<notin> set (buffer st) \<longrightarrow>
      events (foldl (on_stdout parse) st cs) =
        events st @ concat (map (\<lambda>l. fst (handle_line parse l))
                             (butlast (split_nl (buffer st @ concat cs))))
    \<and> plog (foldl (on_stdout parse) st cs) =
        plog st @ concat (map (\<lambda>l. snd (handle_line parse l))
                           (butlast (split_nl (buffer st @ concat cs))))
    \<and> buffer (foldl (on_stdout parse) st cs) = last (split_nl (buffer st @ concat cs))
    \<and> CHR 0x0A \<notin> set (buffer (foldl (on_stdout parse) st cs)))
 \<and> (trim line \<noteq> [] \<and> parse line = None \<longrightarrow>
      handle_line parse line = ([], [PL_parse_failed line]))
 \<and> (trim line \<noteq> [] \<and> parse line = Some (JObj kvs)
      \<and> map_of kvs ''result'' = Some (JStr ''success'') \<longrightarrow>
      fst (handle_line parse line) = fst (processPushEvent (JObj kvs)))
 \<and> ((\<forall>l\<in>set ls. CHR 0x0A \<notin> set l)
      \<and> concat cs = concat (map (\<lambda>l. l @ [CHR 0x0A]) ls) \<longrightarrow>
      events (foldl (on_stdout parse) push_init cs) =
        concat (map (\<lambda>l. fst (handle_line parse l)) ls)
    \<and> plog (foldl (on_stdout parse) push_init cs) =
        concat (map (\<lambda>l. snd (handle_line parse l)) ls)
    \<and> buffer (foldl (on_stdout parse) push_init cs) = [])"
proof (intro conjI impI)
  assume b: "CHR 0x0A \<notin> set (buffer st)"
  note f = feed_chunks [OF b, of parse cs]
  show "events (foldl (on_stdout parse) st cs) =
        events st @ concat (map (\<lambda>l. fst (handle_line parse l))
                             (butlast (split_nl (buffer st @ concat cs))))"
    using f by (rule conjunct1)
  show "plog (foldl (on_stdout parse) st cs) =
        plog st @ concat (map (\<lambda>l. snd (handle_line parse l))
                           (butlast (split_nl (buffer st @ concat cs))))"
    using f by simp
  show "buffer (foldl (on_stdout parse) st cs) = last (split_nl (buffer st @ concat cs))"
    using f by simp
  then show "CHR 0x0A \<notin> set (buffer (foldl (on_stdout parse) st cs))"
    by (simp add: last_split_nl)
next
  assume "trim line \<noteq> [] \<and> parse line = None"
  then show "handle_line parse line = ([], [PL_parse_failed line])"
    by (simp add: handle_line_malformed)
next
  assume "trim line \<noteq> [] \<and> parse line = Some (JObj kvs)
      \<and> map_of kvs ''result'' = Some (JStr ''success'')"
  then show "fst (handle_line parse line) = fst (processPushEvent (JObj kvs))"
    by (simp add: handle_line_success)
next
  assume a: "(\<forall>l\<in>set ls. CHR 0x0A \<notin> set l)
      \<and> concat cs = concat (map (\<lambda>l. l @ [CHR 0x0A]) ls)"
  note f = feed_lines [OF conjunct1 [OF a] conjunct2 [OF a], of parse]
  show "events (foldl (on_stdout parse) push_init cs) =
        concat (map (\<lambda>l. fst (handle_line parse l)) ls)"
    using f by (rule conjunct1)
  show "plog (foldl (on_stdout parse) push_init cs) =
        concat (map (\<lambda>l. snd (handle_line parse l)) ls)"
    using f by simp
  show "buffer (foldl (on_stdout parse) push_init cs) = []"
    using f by simp
qed

text \<open>Three lines, the second malformed, split across three chunks.\<close>

theorem push_parser_lines_witness:
  "events (foldl (on_stdout sample_parse) push_init
      [''{\"result\":\"success\",\"power_state\":\"on\"}\<newline>garb'',
       ''age\<newline>{\"result\":\"succ'', ''ess\",\"volume\":40}\<newline>'']) =
     [EvPower True, EvVolume (JNum 40)]
 \<and> plog (foldl (on_stdout sample_parse) push_init
      [''{\"result\":\"success\",\"power_state\":\"on\"}\<newline>garb'',
       ''age\<newline>{\"result\":\"succ'', ''ess\",\"volume\":40}\<newline>'']) =
     [PL_parse_failed ''garbage'']
 \<and> buffer (foldl (on_stdout sample_parse) (push_init\<lparr>buffer := ''gar''\<rparr>)
      [''bage\<newline>{\"resu'']) = ''{\"resu''
 \<and> plog (foldl (on_stdout sample_parse) (push_init\<lparr>buffer := ''gar''\<rparr>)
      [''bage\<newline>{\"resu'']) = [PL_parse_failed ''garbage'']
 \<and> handle_line sample_parse ''garbage'' = ([], [PL_parse_failed ''garbage''])
 \<and> fst (handle_line sample_parse ''{\"result\":\"success\",\"volume\":40}'') = [EvVolume (JNum 40)]"
proof -
  let ?l1 = "''{\"result\":\"success\",\"power_state\":\"on\"}''"
  let ?l3 = "''{\"result\":\"success\",\"volume\":40}''"
  let ?cs = "[''{\"result\":\"success\",\"power_state\":\"on\"}\<newline>garb'',
       ''age\<newline>{\"result\":\"succ'', ''ess\",\"volume\":40}\<newline>'']"
  let ?ls = "[?l1, ''garbage'', ?l3]"
  let ?st = "(push_init :: int push)\<lparr>buffer := ''gar''\<rparr>"
  note A = push_parser_lines [where parse = sample_parse and cs = ?cs and ls = ?ls
      and st = ?st and line = "''garbage''" and kvs = "[]"]
  note B = push_parser_lines [where parse = sample_parse and cs = "[''bage\<newline>{\"resu'']"
      and ls = ?ls and st = ?st and line = ?l3
      and kvs = "[(''result'', JStr ''success''), (''volume'', JNum 40)]"]
  have h1: "\<forall>l\<in>set ?ls. CHR 0x0A \<notin> set l" by code_simp
  have h2: "concat ?cs = concat (map (\<lambda>l. l @ [CHR 0x0A]) ?ls)" by code_simp
  have r: "events (foldl (on_stdout sample_parse) push_init ?cs) =
        concat (map (\<lambda>l. fst (handle_line sample_parse l)) ?ls)
    \<and> plog (foldl (on_stdout sample_parse) push_init ?cs) =
        concat (map (\<lambda>l. snd (handle_line sample_parse l)) ?ls)
    \<and> buffer (foldl (on_stdout sample_parse) push_init ?cs) = []"
    by (rule A [THEN conjunct2, THEN conjunct2, THEN conjunct2, THEN mp]) (intro conjI h1 h2)
  have e1: "concat (map (\<lambda>l. fst (handle_line sample_parse l)) ?ls) =
      [EvPower True, EvVolume (JNum 40)]" by code_simp
  have e2: "concat (map (\<lambda>l. snd (handle_line sample_parse l)) ?ls) =
      [PL_parse_failed ''garbage'']" by code_simp
  have w1: "events (foldl (on_stdout sample_parse) push_init ?cs) =
      [EvPower True, EvVolume (JNum 40)]" using r e1 by simp
  have w2: "plog (foldl (on_stdout sample_parse) push_init ?cs) =
      [PL_parse_failed ''garbage'']" using r e2 by simp
  have h3: "CHR 0x0A \<notin> set (buffer ?st)" by code_simp
  note B1 = B [THEN conjunct1, THEN mp, OF h3]
  have e3: "last (split_nl (buffer ?st @ concat [''bage\<newline>{\"resu''])) = ''{\"resu''"
    by code_simp
  have e4: "plog ?st @ concat (map (\<lambda>l. snd (handle_line sample_parse l))
      (butlast (split_nl (buffer ?st @ concat [''bage\<newline>{\"resu''])))) =
      [PL_parse_failed ''garbage'']" by code_simp
  have w3: "buffer (foldl (on_stdout sample_parse) ?st [''bage\<newline>{\"resu'']) = ''{\"resu''"
    using B1 [THEN conjunct2, THEN conjunct2, THEN conjunct1] e3 by simp
  have w4: "plog (foldl (on_stdout sample_parse) ?st [''bage\<newline>{\"resu'']) =
      [PL_parse_failed ''garbage'']"
    using B1 [THEN conjunct2, THEN conjunct1] e4 by simp
  have h4: "trim ''garbage'' \<noteq> [] \<and> sample_parse ''garbage'' = None" by code_simp
  have w5: "handle_line sample_parse ''garbage'' = ([], [PL_parse_failed ''garbage''])"
    by (rule A [THEN conjunct2, THEN conjunct1, THEN mp]) (rule h4)
  have h5: "trim ?l3 \<noteq> [] \<and> sample_parse ?l3 =
        Some (JObj [(''result'', JStr ''success''), (''volume'', JNum 40)])
      \<and> map_of [(''result'', JStr ''success''), (''volume'', JNum (40::int))] ''result'' =
        Some (JStr ''success'')" by code_simp
  have e5: "fst (processPushEvent (JObj [(''result'', JStr ''success''), (''volume'', JNum (40::int))])) =
      [EvVolume (JNum 40)]" by code_simp
  have w6: "fst (handle_line sample_parse ?l3) = [EvVolume (JNum 40)]"
    using B [THEN conjunct2, THEN conjunct2, THEN conjunct1, THEN mp, OF h5] e5 by simp
  show ?thesis by (intro conjI w1 w2 w3 w4 w5 w6)
qed

subsection \<open>The terminal connection event\<close>

text \<open>
  Claim C3. The \<^verbatim>\<open>exit\<close> handler calls \<^verbatim>\<open>onUpdate\<close> exactly once, with a
  \<^verbatim>\<open>connection\<close> event of \<^verbatim>\<open>connected = false\<close> and reason \<^verbatim>\<open>process_exit\<close>; the
  \<^verbatim>\<open>error\<close> handler exactly once, with reason \<^verbatim>\<open>process_error\<close>. After any earlier
  notifications, the exit or error of the process appends this one event and nothing else;
  output on stderr appends none.
\<close>

theorem push_terminal_event:
  "events (on_exit st code) = events st @ [EvConnection False (JStr ''process_exit'')]
 \<and> events (on_error st msg) = events st @ [EvConnection False (JStr ''process_error'')]
 \<and> events (push_run parse (ns @ [ProcExit code])) =
      events (push_run parse ns) @ [EvConnection False (JStr ''process_exit'')]
 \<and> events (push_run parse (ns @ [ProcError msg])) =
      events (push_run parse ns) @ [EvConnection False (JStr ''process_error'')]
 \<and> events (push_run parse (ns @ [Stderr chunk])) = events (push_run parse ns)"
  by (simp add: on_exit_def on_error_def on_stderr_def push_run_def)

subsection \<open>The app list\<close>

lemma getAppList_settles: "\<exists>apps. fst (getAppList parse outcome) = Inr apps"
  by (cases "getAppList_try parse outcome") (simp_all add: getAppList_def)

lemma getAppList_exec_failed:
  "getAppList parse (ExecFailed msg err) = (Inr [], [W_applist_failed (AtvscriptFailed msg err)])"
  by (simp add: getAppList_def getAppList_try_def execAtvscript_def)

lemma getAppList_caught:
  "getAppList_try parse outcome = Inl e \<Longrightarrow>
   getAppList parse outcome = (Inr [], [W_applist_failed e])"
  by (simp add: getAppList_def)

text \<open>
  Claim C9. \<^verbatim>\<open>getAppList()\<close> never rejects. On the subprocess backend every failure of
  the underlying query (the process fails, the tool reports a failure, the output does not
  parse) and every error of the mapping ends in the catch block: the promise resolves to
  the empty list and one warning is logged. On the event-driven backend it always resolves
  to the empty list with one warning.
\<close>

theorem getAppList_never_rejects:
  "(\<exists>apps. fst (getAppList parse outcome) = Inr apps)
 \<and> getAppList parse (ExecFailed msg err) =
      (Inr [], [W_applist_failed (AtvscriptFailed msg err)])
 \<and> (getAppList_try parse outcome = Inl e \<longrightarrow>
      getAppList parse outcome = (Inr [], [W_applist_failed e]))
 \<and> (node_getAppList :: ('n atv_error + 'n app list) \<times> 'n applist_warning list) =
      (Inr [], [W_applist_unsupported])"
  using getAppList_settles [of parse outcome] getAppList_exec_failed [of parse msg err]
    getAppList_caught [of parse outcome e]
  by (simp add: node_getAppList_def)

text \<open>A reported failure and an unparsable output.\<close>

theorem getAppList_never_rejects_witness:
  "getAppList sample_parse (ExecDone ''{\"result\":\"failure\"}\<newline>'') =
     (Inr [], [W_applist_failed (AtvscriptError (JStr ''unknown''))])
 \<and> getAppList sample_parse (ExecDone ''Traceback (most recent call last):'') =
     (Inr [], [W_applist_failed (AtvscriptUnparsable ''Traceback (most recent call last):'')])"
proof -
  have t1: "getAppList_try sample_parse (ExecDone ''{\"result\":\"failure\"}\<newline>'') =
      Inl (AtvscriptError (JStr ''unknown''))" by code_simp
  have t2: "getAppList_try sample_parse (ExecDone ''Traceback (most recent call last):'') =
      Inl (AtvscriptUnparsable ''Traceback (most recent call last):'')" by code_simp
  note A = getAppList_never_rejects [where parse = sample_parse
      and outcome = "ExecDone ''{\"result\":\"failure\"}\<newline>''"
      and e = "AtvscriptError (JStr ''unknown'')"]
  note B = getAppList_never_rejects [where parse = sample_parse
      and outcome = "ExecDone ''Traceback (most recent call last):''"
      and e = "AtvscriptUnparsable ''Traceback (most recent call last):''"]
  have w1: "getAppList sample_parse (ExecDone ''{\"result\":\"failure\"}\<newline>'') =
     (Inr [], [W_applist_failed (AtvscriptError (JStr ''unknown''))])"
    by (rule A [THEN conjunct2, THEN conjunct2, THEN conjunct1, THEN mp]) (rule t1)
  have w2: "getAppList sample_parse (ExecDone ''Traceback (most recent call last):'') =
     (Inr [], [W_applist_failed (AtvscriptUnparsable ''Traceback (most recent call last):'')])"
    by (rule B [THEN conjunct2, THEN conjunct2, THEN conjunct1, THEN mp]) (rule t2)
  show ?thesis by (intro conjI w1 w2)
qed

subsection \<open>Submitting the PIN\<close>

lemma pairFinish_collects:
  "list_all is_data_or_error evs \<Longrightarrow>
   foldl pairFinish_on x evs = x\<lparr>pc_out := pc_out x @ data_of evs\<rparr>"
proof (induction evs arbitrary: x)
  case Nil
  show ?case by simp
next
  case (Cons e evs)
  then show ?case by (cases e) simp_all
qed

lemma pairFinish_begin_live:
  "pairProcess b = Some pid \<Longrightarrow> \<not> p_killed (procs w pid) \<Longrightarrow>
   pairFinish_begin pin None (b, w) =
     \<lparr>pc_out = [], pc_resolved = False, pc_timer = True, pc_result = None,
      pc_pid = Some pid, pc_backend = b,
      pc_world = w\<lparr>effects := effects w @ [Write pid (pin @ [CHR 0x0A])]\<rparr>\<rparr>"
  by (simp add: pairFinish_begin_def Let_def)

lemma pairFinish_exit_result:
  assumes "pc_resolved x = False"
  shows "pc_result (pairFinish_on x (PExit code)) =
     Some (case extractCredentials (pc_out x) of
             Some c \<Rightarrow> Inr (Paired (Some c))
           | None \<Rightarrow> if code = Some 0 then Inr (Paired (Some (trim (pc_out x))))
                     else Inl (PinFailed code (take 300 (pc_out x))))
   \<and> pairProcess (pc_backend (pairFinish_on x (PExit code))) = None
   \<and> pc_resolved (pairFinish_on x (PExit code))"
proof -
  have r: "\<not> pc_resolved ((mark_exited x)\<lparr>pc_timer := False\<rparr>)"
    using assms by (cases "pc_pid x") (simp_all add: mark_exited_def)
  have o: "pc_out (mark_exited x) = pc_out x"
    by (cases "pc_pid x") (simp_all add: mark_exited_def)
  show ?thesis
  proof (cases "extractCredentials (pc_out x)")
    case None
    then show ?thesis using r o by (simp add: Let_def settle_def)
  next
    case (Some c)
    then have "c \<noteq> []" by (rule extractCredentials_nonempty)
    then show ?thesis using Some r o by (simp add: Let_def settle_def)
  qed
qed

text \<open>
  Claim C5. \<^verbatim>\<open>pairFinish(pin)\<close> on a live pairing process, the PIN written, then any
  output (and \<^verbatim>\<open>error\<close> events, which it ignores), then the exit of the process: with a
  credentials string found in the output collected since the call, the promise resolves to
  \<^verbatim>\<open>paired\<close> with that string; with none found and exit code 0 it resolves to
  \<^verbatim>\<open>paired\<close> with the trimmed output; otherwise it rejects with the exit code and the
  first 300 characters of the output. The backend's reference to the process is cleared.
\<close>

theorem pairFinish_on_exit:
  "pairProcess b = Some pid \<and> \<not> p_killed (procs w pid) \<and> list_all is_data_or_error evs \<longrightarrow>
     (extractCredentials (data_of evs) = Some c \<longrightarrow>
        pc_result (foldl pairFinish_on (pairFinish_begin pin None (b, w)) (evs @ [PExit code])) =
          Some (Inr (Paired (Some c))))
   \<and> (extractCredentials (data_of evs) = None \<and> code = Some 0 \<longrightarrow>
        pc_result (foldl pairFinish_on (pairFinish_begin pin None (b, w)) (evs @ [PExit code])) =
          Some (Inr (Paired (Some (trim (data_of evs))))))
   \<and> (extractCredentials (data_of evs) = None \<and> code \<noteq> Some 0 \<longrightarrow>
        pc_result (foldl pairFinish_on (pairFinish_begin pin None (b, w)) (evs @ [PExit code])) =
          Some (Inl (PinFailed code (take 300 (data_of evs))))
        \<and> length (take 300 (data_of evs)) \<le> 300)
   \<and> pairProcess (pc_backend
        (foldl pairFinish_on (pairFinish_begin pin None (b, w)) (evs @ [PExit code]))) = None"
proof (intro impI, elim conjE)
  assume a: "pairProcess b = Some pid" "\<not> p_killed (procs w pid)"
    "list_all is_data_or_error evs"
  let ?start = "pairFinish_begin pin None (b, w)"
  let ?run = "foldl pairFinish_on ?start evs"
  have x0: "pc_out ?start = [] \<and> pc_resolved ?start = False"
    by (simp add: pairFinish_begin_live [OF a(1,2)])
  have x: "?run = ?start\<lparr>pc_out := pc_out ?start @ data_of evs\<rparr>"
    using a(3) by (rule pairFinish_collects)
  have xo: "pc_out ?run = data_of evs" and xr: "pc_resolved ?run = False"
    using x0 by (simp_all add: x)
  have f: "foldl pairFinish_on ?start (evs @ [PExit code]) = pairFinish_on ?run (PExit code)"
    by simp
  note r = pairFinish_exit_result [OF xr, of code]
  show "(extractCredentials (data_of evs) = Some c \<longrightarrow>
        pc_result (foldl pairFinish_on ?start (evs @ [PExit code])) =
          Some (Inr (Paired (Some c))))
   \<and> (extractCredentials (data_of evs) = None \<and> code = Some 0 \<longrightarrow>
        pc_result (foldl pairFinish_on ?start (evs @ [PExit code])) =
          Some (Inr (Paired (Some (trim (data_of evs))))))
   \<and> (extractCredentials (data_of evs) = None \<and> code \<noteq> Some 0 \<longrightarrow>
        pc_result (foldl pairFinish_on ?start (evs @ [PExit code])) =
          Some (Inl (PinFailed code (take 300 (data_of evs))))
        \<and> length (take 300 (data_of evs)) \<le> 300)
   \<and> pairProcess (pc_backend (foldl pairFinish_on ?start (evs @ [PExit code]))) = None"
  proof -
    let ?fin = "foldl pairFinish_on ?start (evs @ [PExit code])"
    have res: "pc_result ?fin =
       Some (case extractCredentials (data_of evs) of
               Some c \<Rightarrow> Inr (Paired (Some c))
             | None \<Rightarrow> if code = Some 0 then Inr (Paired (Some (trim (data_of evs))))
                       else Inl (PinFailed code (take 300 (data_of evs))))"
      unfolding f using r [unfolded xo] by (rule conjunct1)
    have bk: "pairProcess (pc_backend ?fin) = None"
      unfolding f using r by (simp del: pairFinish_on.simps)
    show ?thesis unfolding res bk by simp
  qed
qed

text \<open>
  The guard of \<^verbatim>\<open>pairFinish\<close>: with no process reference in the backend, or with the
  \<^verbatim>\<open>killed\<close> flag of the referenced process set, the promise is rejected at once and
  nothing else happens.
\<close>

lemma pairFinish_guard_rejects:
  "pairProcess b = None \<or> (\<exists>pid. pairProcess b = Some pid \<and> p_killed (procs w pid)) \<longrightarrow>
     pc_result (pairFinish_begin pin write_err (b, w)) = Some (Inl NoActiveSession)
   \<and> pc_world (pairFinish_begin pin write_err (b, w)) = w
   \<and> pc_backend (pairFinish_begin pin write_err (b, w)) = b
   \<and> pc_pid (pairFinish_begin pin write_err (b, w)) = None
   \<and> \<not> pc_timer (pairFinish_begin pin write_err (b, w))"
  by (auto simp: pairFinish_begin_def Let_def)


text \<open>The three outcomes on a running pairing process.\<close>

theorem pairFinish_on_exit_witness:
  "pc_result (foldl pairFinish_on (pairFinish_begin ''1234'' None (sample_backend, sample_world))
      ([PData ''Pairing seems to have succeeded\<newline>credentials: AB12'', PError ''EPIPE'',
        PData '':CD34\<newline>''] @ [PExit (Some 0)])) =
     Some (Inr (Paired (Some ''AB12:CD34'')))
 \<and> pc_result (foldl pairFinish_on (pairFinish_begin ''1234'' None (sample_backend, sample_world))
      ([PData ''  done  \<newline>''] @ [PExit (Some 0)])) =
     Some (Inr (Paired (Some ''done'')))
 \<and> pc_result (foldl pairFinish_on (pairFinish_begin ''1234'' None (sample_backend, sample_world))
      ([PData ''bad pin''] @ [PExit (Some 1)])) =
     Some (Inl (PinFailed (Some 1) ''bad pin''))
 \<and> pairProcess (pc_backend
      (foldl pairFinish_on (pairFinish_begin ''1234'' None (sample_backend, sample_world))
        ([PData ''bad pin''] @ [PExit (Some 1)]))) = None"
proof -
  let ?e1 = "[PData ''Pairing seems to have succeeded\<newline>credentials: AB12'', PError ''EPIPE'',
        PData '':CD34\<newline>'']"
  let ?e2 = "[PData ''  done  \<newline>'']"
  let ?e3 = "[PData ''bad pin'']"
  have b: "pairProcess sample_backend = Some 0" by (simp add: sample_backend_def)
  have k: "\<not> p_killed (procs sample_world 0)"
    by (simp add: sample_world_def spawn_def world_init_def)
  have d1: "list_all is_data_or_error ?e1" by simp
  have d2: "list_all is_data_or_error ?e2" by simp
  have d3: "list_all is_data_or_error ?e3" by simp
  note A = pairFinish_on_exit [where b = sample_backend and w = sample_world and pid = 0
      and pin = "''1234''" and evs = ?e1 and code = "Some 0" and c = "''AB12:CD34''",
      THEN mp, OF conjI [OF b conjI [OF k d1]]]
  note B = pairFinish_on_exit [where b = sample_backend and w = sample_world and pid = 0
      and pin = "''1234''" and evs = ?e2 and code = "Some 0" and c = "''AB12:CD34''",
      THEN mp, OF conjI [OF b conjI [OF k d2]]]
  note C = pairFinish_on_exit [where b = sample_backend and w = sample_world and pid = 0
      and pin = "''1234''" and evs = ?e3 and code = "Some 1" and c = "''AB12:CD34''",
      THEN mp, OF conjI [OF b conjI [OF k d3]]]
  have x1: "extractCredentials (data_of ?e1) = Some ''AB12:CD34''" by code_simp
  have x2: "extractCredentials (data_of ?e2) = None \<and> Some (0::int) = Some 0" by code_simp
  have x3: "extractCredentials (data_of ?e3) = None \<and> Some (1::int) \<noteq> Some 0" by code_simp
  have t2: "trim (data_of ?e2) = ''done''" by code_simp
  have t3: "take 300 (data_of ?e3) = ''bad pin''" by code_simp
  have w1: "pc_result (foldl pairFinish_on
      (pairFinish_begin ''1234'' None (sample_backend, sample_world)) (?e1 @ [PExit (Some 0)])) =
     Some (Inr (Paired (Some ''AB12:CD34'')))"
    by (rule A [THEN conjunct1, THEN mp]) (rule x1)
  have w2: "pc_result (foldl pairFinish_on
      (pairFinish_begin ''1234'' None (sample_backend, sample_world)) (?e2 @ [PExit (Some 0)])) =
     Some (Inr (Paired (Some ''done'')))"
    using B [THEN conjunct2, THEN conjunct1, THEN mp, OF x2] unfolding t2 .
  have w3: "pc_result (foldl pairFinish_on
      (pairFinish_begin ''1234'' None (sample_backend, sample_world)) (?e3 @ [PExit (Some 1)])) =
     Some (Inl (PinFailed (Some 1) ''bad pin''))"
    using C [THEN conjunct2, THEN conjunct2, THEN conjunct1, THEN mp, OF x3, THEN conjunct1]
    unfolding t3 .
  have w4: "pairProcess (pc_backend (foldl pairFinish_on
      (pairFinish_begin ''1234'' None (sample_backend, sample_world)) (?e3 @ [PExit (Some 1)]))) =
     None"
    by (rule C [THEN conjunct2, THEN conjunct2, THEN conjunct2])
  show ?thesis by (intro conjI w1 w2 w3 w4)
qed

text \<open>
  Claim C6 at a concrete input: the pairing process reached the PIN prompt and was then ended
  from outside, so that no pairing process is live. The backend still refers to the process
  and its \<^verbatim>\<open>killed\<close> flag is not set (only \<^verbatim>\<open>pairAbort\<close> sets it), so the guard of
  \<^verbatim>\<open>pairFinish\<close> lets the call pass: the PIN is written to the stdin of the ended process,
  the promise is left pending, and only the timer settles it, with the timeout error and
  not the no-active-session error.
\<close>

theorem pairFinish_after_exit:
  "pc_result pairing_ended = Some (Inr AwaitingPin)
 \<and> live (pc_world pairing_ended) = []
 \<and> pairProcess (pc_backend pairing_ended) = Some 0
 \<and> pc_result (pairFinish_begin ''1234'' None (pc_backend pairing_ended, pc_world pairing_ended)) =
     None
 \<and> effects (pc_world
       (pairFinish_begin ''1234'' None (pc_backend pairing_ended, pc_world pairing_ended))) =
     [Spawn 0 [''--id'', ''atv1'', ''--protocol'', ''airplay'', ''pair''], Write 0 ''1234\<newline>'']
 \<and> pc_result (pairFinish_on
       (pairFinish_begin ''1234'' None (pc_backend pairing_ended, pc_world pairing_ended))
       PTimeout) = Some (Inl PinTimeout)"
  by code_simp

subsection \<open>The pairing messages\<close>

text \<open>
  Claim C10. \<^verbatim>\<open>submitPin\<close> with a PIN whose string form is empty or not 4 characters
  long answers \<^verbatim>\<open>PIN must be exactly 4 digits\<close> and does nothing else: the session map,
  the processes and the effects on them are unchanged, whatever session exists and whatever
  the pairing process would have done.
\<close>

theorem submitPin_rejects_bad_pin:
  "pin_of to_str m = [] \<or> length (pin_of to_str m) \<noteq> 4 \<longrightarrow>
     submitPin to_str store_err m write_err evs st =
       st\<lparr>responses := responses st @ [Resp_error E_pin_format]\<rparr>"
  by (simp add: submitPin_def Let_def respond_def)

text \<open>A five character PIN and a missing PIN, with a session awaiting its PIN.\<close>

theorem submitPin_rejects_bad_pin_witness:
  "submitPin sample_to_str None (sample_msg (Some (JStr ''12345''))) None
     [PData ''credentials: AB:CD'', PExit (Some 0)] adapter_awaiting =
     adapter_awaiting\<lparr>responses := responses adapter_awaiting @ [Resp_error E_pin_format]\<rparr>
 \<and> submitPin sample_to_str None (sample_msg None) None
     [PData ''credentials: AB:CD'', PExit (Some 0)] adapter_awaiting =
     adapter_awaiting\<lparr>responses := responses adapter_awaiting @ [Resp_error E_pin_format]\<rparr>"
proof -
  have "length (pin_of sample_to_str (sample_msg (Some (JStr ''12345'')))) \<noteq> 4"
    by (simp add: pin_of_def sample_msg_def sample_to_str_def)
  then have a: "pin_of sample_to_str (sample_msg (Some (JStr ''12345''))) = []
      \<or> length (pin_of sample_to_str (sample_msg (Some (JStr ''12345'')))) \<noteq> 4"
    by (rule disjI2)
  have "pin_of sample_to_str (sample_msg None) = []"
    by (simp add: pin_of_def sample_msg_def)
  then have b: "pin_of sample_to_str (sample_msg None) = []
      \<or> length (pin_of sample_to_str (sample_msg None)) \<noteq> 4"
    by (rule disjI1)
  show ?thesis
    by (intro conjI submitPin_rejects_bad_pin [THEN mp, OF a]
          submitPin_rejects_bad_pin [THEN mp, OF b])
qed

text \<open>
  On one backend object \<^verbatim>\<open>pairStart\<close> does signal the process of the earlier call before
  it spawns the next.
\<close>

lemma pairStart_begin_same_backend:
  "pairProcess b = Some pid \<Longrightarrow> \<not> p_killed (procs w pid) \<Longrightarrow>
   effects (pc_world (pairStart_begin protocol (b, w))) =
     effects w @ [Kill pid, Spawn (next_pid w) (pairStart_args (config b) protocol)]"
  by (simp add: pairStart_begin_def pairAbort_def kill_def spawn_def)

text \<open>
  Claim C2 at a concrete input: two \<^verbatim>\<open>startPairing\<close> messages for \<^verbatim>\<open>atv1\<close>, each
  reaching the PIN prompt. The second call builds a new backend, whose \<^verbatim>\<open>pairAbort\<close> has
  nothing to abort: no process is signalled, both pairing processes are live, and the
  session map now holds only the second backend, so that \<^verbatim>\<open>abortPairing\<close> ends the second
  process and leaves the first one running.
\<close>

theorem startPairing_twice:
  "live_for ''atv1''
     (a_world (startPairing None (sample_msg None) [PData ''Enter PIN on screen: ''] adapter_awaiting)) =
     [0, 1]
 \<and> effects
     (a_world (startPairing None (sample_msg None) [PData ''Enter PIN on screen: ''] adapter_awaiting)) =
     [Spawn 0 [''--id'', ''atv1'', ''--protocol'', ''airplay'', ''pair''],
      Spawn 1 [''--id'', ''atv1'', ''--protocol'', ''airplay'', ''pair'']]
 \<and> responses
     (startPairing None (sample_msg None) [PData ''Enter PIN on screen: ''] adapter_awaiting) =
     [Resp_awaitingPin ''atv1'', Resp_awaitingPin ''atv1'']
 \<and> live_for ''atv1''
     (a_world (abortPairing (sample_msg None)
        (startPairing None (sample_msg None) [PData ''Enter PIN on screen: ''] adapter_awaiting))) =
     [0]"
  by code_simp

end
